theory Spec2Isabelle
  imports Main "HOL-Library.Word" "HOL-Library.Sublist"
begin

unbundle bit_operations_syntax

section \<open>The Taichi program execution context (taichi/program/program.h)\<close>

text \<open>
  A shallow embedding of \<^verbatim>\<open>struct JITEvaluatorId\<close>, its \<^verbatim>\<open>std::hash\<close>
  specialisation and \<^verbatim>\<open>class Program\<close>. Types that the header only includes
  (\<^verbatim>\<open>CompileConfig\<close>, \<^verbatim>\<open>DataType\<close>, \<^verbatim>\<open>Kernel\<close>, \<^verbatim>\<open>FunctionKey\<close>,
  \<^verbatim>\<open>SNode\<close>) are type parameters; functions of theirs that the header calls
  (\<^verbatim>\<open>DataType::hash\<close>, \<^verbatim>\<open>std::hash<std::thread::id>\<close>, the \<^verbatim>\<open>Kernel\<close>
  constructor) are function parameters.
\<close>

subsection \<open>Errors\<close>

text \<open>\<^verbatim>\<open>TI_ASSERT\<close> aborts the operation; it is the only failure of this header.\<close>

datatype ti_error = TI_ASSERT_failed

subsection \<open>JITEvaluatorId\<close>

text \<open>A \<^verbatim>\<open>std::thread::id\<close> is an opaque value compared by equality.\<close>

type_synonym thread_id = nat

text \<open>
  \<^verbatim>\<open>int op\<close> is a 32-bit two's-complement integer; \<^verbatim>\<open>std::size_t\<close> is 64 bits
  wide (the hash shifts by 32).
\<close>

record 'dt JITEvaluatorId =
  thread_id :: thread_id
  op :: "32 word"
  ret :: 'dt
  lhs :: 'dt
  rhs :: 'dt
  tb :: string
  is_binary :: bool

definition unary_op :: "'dt JITEvaluatorId \<Rightarrow> ti_error + 32 word" where
  "unary_op i = (if \<not> is_binary i then Inr (op i) else Inl TI_ASSERT_failed)"

definition binary_op :: "'dt JITEvaluatorId \<Rightarrow> ti_error + 32 word" where
  "binary_op i = (if is_binary i then Inr (op i) else Inl TI_ASSERT_failed)"

text \<open>\<^verbatim>\<open>JITEvaluatorId::operator==\<close>, conjunct by conjunct in the order of the source.\<close>

definition JITEvaluatorId_eq :: "'dt JITEvaluatorId \<Rightarrow> 'dt JITEvaluatorId \<Rightarrow> bool" where
  "JITEvaluatorId_eq a b =
     (thread_id a = thread_id b \<and> op a = op b \<and> ret a = ret b \<and>
      lhs a = lhs b \<and> rhs a = rhs b \<and> is_binary a = is_binary b \<and>
      tb a = tb b)"

text \<open>
  \<^verbatim>\<open>std::hash<JITEvaluatorId>::operator()\<close>. The cast \<^verbatim>\<open>(std::size_t)id.op\<close>
  sign-extends, \<^verbatim>\<open>(std::size_t)id.is_binary\<close> is 0 or 1, \<^verbatim>\<open><<\<close> on
  \<^verbatim>\<open>std::size_t\<close> drops the bits shifted out. \<open>dt_hash\<close> is \<^verbatim>\<open>DataType::hash\<close>
  and \<open>tid_hash\<close> is \<^verbatim>\<open>std::hash<std::thread::id>\<close>.
\<close>

definition JITEvaluatorId_hash ::
  "('dt \<Rightarrow> 64 word) \<Rightarrow> (thread_id \<Rightarrow> 64 word) \<Rightarrow> 'dt JITEvaluatorId \<Rightarrow> 64 word" where
  "JITEvaluatorId_hash dt_hash tid_hash i =
     ((scast (op i) OR push_bit 8 (dt_hash (ret i)) OR push_bit 16 (dt_hash (lhs i)) OR
       push_bit 24 (dt_hash (rhs i)) OR push_bit 31 (of_bool (is_binary i)))
      XOR push_bit 32 (tid_hash (thread_id i)))"

subsection \<open>Program: the state\<close>

text \<open>
  The fields of \<^verbatim>\<open>class Program\<close> that its operations on configurations, kernels,
  the evaluator cache, SNode trees and functions read or write. A private member
  \<^verbatim>\<open>name_\<close> of the source is the field \<open>name\<close> here (\<^verbatim>\<open>functions_\<close> is
  \<open>functions_vec\<close>).

  A \<^verbatim>\<open>std::unique_ptr<Kernel>\<close> owns a heap object of its own, and a
  \<^verbatim>\<open>Kernel *\<close> or \<^verbatim>\<open>Kernel &\<close> is the address of one. \<open>kernel_heap\<close> is the store
  of all \<^verbatim>\<open>Kernel\<close> objects made so far: the address of an object is its index, and
  \<^verbatim>\<open>std::make_unique\<close> appends. \<open>function_heap\<close> is the same for \<^verbatim>\<open>Function\<close>.
\<close>

record 'sn SNodeTree =
  tree_id :: int
  tree_root :: 'sn

datatype 'fk Function = Function (func_key: 'fk)

record ('cfg, 'dt, 'k, 'fk, 'sn) Program =
  configs :: "thread_id \<rightharpoonup> 'cfg"
  main_thread_id :: thread_id
  kernel_heap :: "'k list"
  kernels :: "nat list"
  jit_evaluator_cache :: "'dt JITEvaluatorId \<rightharpoonup> nat"
  jit_evaluator_id :: "32 word"
  snode_trees :: "'sn SNodeTree option list"
  free_snode_tree_ids :: "int list"
  function_heap :: "'fk Function list"
  functions_vec :: "nat list"
  function_map :: "'fk \<rightharpoonup> nat"

text \<open>
  The state after construction: every container is empty and \<^verbatim>\<open>jit_evaluator_id\<close>
  is 0 by the default member initialisers. The constructor, defined outside this
  header, records the constructing thread in \<^verbatim>\<open>main_thread_id_\<close> and may seed
  \<^verbatim>\<open>configs\<close>; both are arguments here.
\<close>

definition Program_init ::
  "thread_id \<Rightarrow> (thread_id \<rightharpoonup> 'cfg) \<Rightarrow> ('cfg, 'dt, 'k, 'fk, 'sn) Program" where
  "Program_init main cs =
     \<lparr>configs = cs, main_thread_id = main, kernel_heap = [], kernels = [],
      jit_evaluator_cache = Map.empty, jit_evaluator_id = 0,
      snode_trees = [], free_snode_tree_ids = [],
      function_heap = [], functions_vec = [], function_map = Map.empty\<rparr>"

subsection \<open>Per-thread configurations\<close>

text \<open>
  \<^verbatim>\<open>std::unordered_map::operator[]\<close>: the stored value, after inserting a
  value-initialised one (\<open>dflt\<close>, a default-constructed \<^verbatim>\<open>CompileConfig\<close>) when the
  key is absent.
\<close>

definition configs_at ::
  "'cfg \<Rightarrow> (thread_id \<rightharpoonup> 'cfg) \<Rightarrow> thread_id \<Rightarrow> 'cfg \<times> (thread_id \<rightharpoonup> 'cfg)" where
  "configs_at dflt m t = (case m t of Some c \<Rightarrow> (c, m) | None \<Rightarrow> (dflt, m(t \<mapsto> dflt)))"

text \<open>
  A \<^verbatim>\<open>CompileConfig &\<close> into \<^verbatim>\<open>configs\<close> designates the node stored under a key (the
  map never moves or erases a node), so a reference is that key.
\<close>

type_synonym config_ref = thread_id

text \<open>
  \<^verbatim>\<open>Program::this_thread_config\<close>, called by thread \<open>thread\<close>. In the assignment
  \<^verbatim>\<open>configs[thread_id] = configs[main_thread_id]\<close> the right operand is evaluated
  first. The locks order the accesses of different threads; a call is one atomic step.
\<close>

definition this_thread_config ::
  "'cfg \<Rightarrow> thread_id \<Rightarrow> ('cfg, 'dt, 'k, 'fk, 'sn) Program
     \<Rightarrow> config_ref \<times> ('cfg, 'dt, 'k, 'fk, 'sn) Program" where
  "this_thread_config dflt thread p =
     (if configs p thread = None then
        (let (c, m1) = configs_at dflt (configs p) (main_thread_id p);
             (_, m2) = configs_at dflt m1 thread;
             m3 = m2(thread \<mapsto> c)
         in (thread, p\<lparr>configs := snd (configs_at dflt m3 thread)\<rparr>))
      else (thread, p\<lparr>configs := snd (configs_at dflt (configs p) thread)\<rparr>))"

text \<open>\<^verbatim>\<open>Program::config\<close>: the entry of the main thread.\<close>

definition config ::
  "'cfg \<Rightarrow> ('cfg, 'dt, 'k, 'fk, 'sn) Program \<Rightarrow> 'cfg \<times> ('cfg, 'dt, 'k, 'fk, 'sn) Program" where
  "config dflt p =
     (let (c, m) = configs_at dflt (configs p) (main_thread_id p) in (c, p\<lparr>configs := m\<rparr>))"

text \<open>Reading and assigning through a reference returned by \<^verbatim>\<open>this_thread_config\<close>.\<close>

definition read_config :: "config_ref \<Rightarrow> ('cfg, 'dt, 'k, 'fk, 'sn) Program \<Rightarrow> 'cfg option" where
  "read_config r p = configs p r"

definition mutate_config ::
  "config_ref \<Rightarrow> ('cfg \<Rightarrow> 'cfg) \<Rightarrow> ('cfg, 'dt, 'k, 'fk, 'sn) Program
     \<Rightarrow> ('cfg, 'dt, 'k, 'fk, 'sn) Program" where
  "mutate_config r f p =
     (case configs p r of Some c \<Rightarrow> p\<lparr>configs := (configs p)(r \<mapsto> f c)\<rparr> | None \<Rightarrow> p)"

text \<open>
  What threads do with configurations: a thread calls \<^verbatim>\<open>this_thread_config\<close>, or
  assigns through the reference such a call gave it.
\<close>

datatype 'cfg config_event = Call thread_id | Mutate config_ref "'cfg \<Rightarrow> 'cfg"

fun config_step ::
  "'cfg \<Rightarrow> ('cfg, 'dt, 'k, 'fk, 'sn) Program \<Rightarrow> 'cfg config_event
     \<Rightarrow> ('cfg, 'dt, 'k, 'fk, 'sn) Program" where
  "config_step dflt p (Call t) = snd (this_thread_config dflt t p)"
| "config_step dflt p (Mutate r f) = mutate_config r f p"

definition config_run ::
  "'cfg \<Rightarrow> 'cfg config_event list \<Rightarrow> ('cfg, 'dt, 'k, 'fk, 'sn) Program
     \<Rightarrow> ('cfg, 'dt, 'k, 'fk, 'sn) Program" where
  "config_run dflt es p = foldl (config_step dflt) p es"

subsection \<open>Kernels\<close>

text \<open>
  \<^verbatim>\<open>Program::kernel\<close>. \<open>Kernel_ctor\<close> is the constructor
  \<^verbatim>\<open>Kernel(*this, body, name, autodiff_mode)\<close>, defined outside this header; the
  result is the address of \<^verbatim>\<open>*kernels.back()\<close>.
\<close>

definition kernel ::
  "(('cfg, 'dt, 'k, 'fk, 'sn) Program \<Rightarrow> 'b \<Rightarrow> string \<Rightarrow> 'm \<Rightarrow> 'k) \<Rightarrow> 'b \<Rightarrow> string \<Rightarrow> 'm
     \<Rightarrow> ('cfg, 'dt, 'k, 'fk, 'sn) Program \<Rightarrow> nat \<times> ('cfg, 'dt, 'k, 'fk, 'sn) Program" where
  "kernel Kernel_ctor body name autodiff_mode p =
     (let func = length (kernel_heap p);
          p1 = p\<lparr>kernel_heap := kernel_heap p @ [Kernel_ctor p body name autodiff_mode]\<rparr>;
          p2 = p1\<lparr>kernels := kernels p1 @ [func]\<rparr>
      in (last (kernels p2), p2))"

text \<open>Several calls of \<^verbatim>\<open>kernel\<close> in a row, one per argument triple.\<close>

fun kernel_calls ::
  "(('cfg, 'dt, 'k, 'fk, 'sn) Program \<Rightarrow> 'b \<Rightarrow> string \<Rightarrow> 'm \<Rightarrow> 'k) \<Rightarrow> ('b \<times> string \<times> 'm) list
     \<Rightarrow> ('cfg, 'dt, 'k, 'fk, 'sn) Program \<Rightarrow> ('cfg, 'dt, 'k, 'fk, 'sn) Program" where
  "kernel_calls Kernel_ctor [] p = p"
| "kernel_calls Kernel_ctor ((body, name, autodiff_mode) # rest) p =
     kernel_calls Kernel_ctor rest (snd (kernel Kernel_ctor body name autodiff_mode p))"

text \<open>
  \<^verbatim>\<open>Program::get_kernel_id\<close>. Its state is the function-local \<^verbatim>\<open>static int id\<close>,
  shared by the whole process; a failed \<^verbatim>\<open>TI_ASSERT\<close> leaves it unchanged. The
  result is the returned id and the new value of the static.
\<close>

definition get_kernel_id :: "int \<Rightarrow> ti_error + (int \<times> int)" where
  "get_kernel_id cur = (if cur < 100000 then Inr (cur, cur + 1) else Inl TI_ASSERT_failed)"

text \<open>\<open>n\<close> calls in a row; the first failure aborts.\<close>

fun get_kernel_ids :: "nat \<Rightarrow> int \<Rightarrow> ti_error + (int list \<times> int)" where
  "get_kernel_ids 0 cur = Inr ([], cur)"
| "get_kernel_ids (Suc n) cur =
     (case get_kernel_id cur of
        Inl e \<Rightarrow> Inl e
      | Inr (r, cur') \<Rightarrow>
          (case get_kernel_ids n cur' of
             Inl e \<Rightarrow> Inl e
           | Inr (rs, cur'') \<Rightarrow> Inr (r # rs, cur'')))"

subsection \<open>SNode tree registry\<close>

text \<open>
  \<^verbatim>\<open>snode_trees_\<close> is a vector of \<^verbatim>\<open>std::unique_ptr<SNodeTree>\<close>: a slot holds a
  tree or is null. Tree ids are \<^verbatim>\<open>int\<close>; \<open>slot\<close> reads the slot an id names and
  \<open>set_slot\<close> assigns it, both only inside the vector.
\<close>

definition slot :: "'a option list \<Rightarrow> int \<Rightarrow> 'a option" where
  "slot xs i = (if 0 \<le> i \<and> nat i < length xs then xs ! nat i else None)"

definition set_slot :: "int \<Rightarrow> 'a option \<Rightarrow> 'a option list \<Rightarrow> 'a option list" where
  "set_slot i v xs = (if 0 \<le> i \<and> nat i < length xs then xs[nat i := v] else xs)"

text \<open>
  Modelled from the spec: the body of \<^verbatim>\<open>Program::allocate_snode_tree_id\<close>, which this
  header only declares. It pops and returns an id from the free-id stack if the stack
  is non-empty; otherwise it returns the current size of the tree list and grows the
  list (by an empty slot). The head of \<open>free_snode_tree_ids\<close> is the top of the stack.
\<close>

definition allocate_snode_tree_id ::
  "('cfg, 'dt, 'k, 'fk, 'sn) Program \<Rightarrow> int \<times> ('cfg, 'dt, 'k, 'fk, 'sn) Program" where
  "allocate_snode_tree_id p =
     (case free_snode_tree_ids p of
        [] \<Rightarrow> (int (length (snode_trees p)), p\<lparr>snode_trees := snode_trees p @ [None]\<rparr>)
      | i # rest \<Rightarrow> (i, p\<lparr>free_snode_tree_ids := rest\<rparr>))"

text \<open>
  Modelled from the spec: the body of \<^verbatim>\<open>Program::add_snode_tree\<close>, which this header
  only declares. It allocates an id, constructs the tree record and stores it in the
  slot of that id; the backend's materialisation (skipped when \<open>compile_only\<close>) touches
  no field of this state. The returned \<^verbatim>\<open>SNodeTree *\<close> is the tree.
\<close>

definition add_snode_tree ::
  "'sn \<Rightarrow> bool \<Rightarrow> ('cfg, 'dt, 'k, 'fk, 'sn) Program
     \<Rightarrow> 'sn SNodeTree \<times> ('cfg, 'dt, 'k, 'fk, 'sn) Program" where
  "add_snode_tree root compile_only p =
     (let (i, p1) = allocate_snode_tree_id p;
          tree = \<lparr>tree_id = i, tree_root = root\<rparr>
      in (tree, p1\<lparr>snode_trees := set_slot i (Some tree) (snode_trees p1)\<rparr>))"

text \<open>
  Modelled from the spec: the body of \<^verbatim>\<open>Program::destroy_snode_tree\<close>, which this
  header only declares. It releases the backend's resources (no field of this state),
  pushes the tree's id onto the free-id stack and invalidates the tree's slot.
\<close>

definition destroy_snode_tree ::
  "'sn SNodeTree \<Rightarrow> ('cfg, 'dt, 'k, 'fk, 'sn) Program \<Rightarrow> ('cfg, 'dt, 'k, 'fk, 'sn) Program" where
  "destroy_snode_tree snode_tree p =
     p\<lparr>free_snode_tree_ids := tree_id snode_tree # free_snode_tree_ids p,
       snode_trees := set_slot (tree_id snode_tree) None (snode_trees p)\<rparr>"

text \<open>
  Modelled from the spec: the body of \<^verbatim>\<open>Program::get_snode_root\<close>, which this header
  only declares. It fails, fatally, if \<open>tree_id\<close> does not name a live tree, and
  returns the root of the tree otherwise.
\<close>

definition get_snode_root ::
  "int \<Rightarrow> ('cfg, 'dt, 'k, 'fk, 'sn) Program \<Rightarrow> ti_error + 'sn" where
  "get_snode_root i p =
     (case slot (snode_trees p) i of
        Some tree \<Rightarrow> Inr (tree_root tree)
      | None \<Rightarrow> Inl TI_ASSERT_failed)"

text \<open>Adding one tree per root, in order.\<close>

fun add_snode_trees ::
  "'sn list \<Rightarrow> ('cfg, 'dt, 'k, 'fk, 'sn) Program \<Rightarrow> ('cfg, 'dt, 'k, 'fk, 'sn) Program" where
  "add_snode_trees [] p = p"
| "add_snode_trees (root # roots) p = add_snode_trees roots (snd (add_snode_tree root False p))"

text \<open>
  A run of the registry: trees are added and destroyed; the run returns the ids that
  its additions were given, in order.
\<close>

datatype 'sn tree_event = Add 'sn bool | Destroy "'sn SNodeTree"

fun tree_run ::
  "'sn tree_event list \<Rightarrow> ('cfg, 'dt, 'k, 'fk, 'sn) Program
     \<Rightarrow> int list \<times> ('cfg, 'dt, 'k, 'fk, 'sn) Program" where
  "tree_run [] p = ([], p)"
| "tree_run (Add root compile_only # es) p =
     (let (tree, p1) = add_snode_tree root compile_only p;
          (ids, p2) = tree_run es p1
      in (tree_id tree # ids, p2))"
| "tree_run (Destroy tree # es) p = tree_run es (destroy_snode_tree tree p)"

subsection \<open>Function registry\<close>

text \<open>
  Modelled from the spec: the body of \<^verbatim>\<open>Program::create_function\<close>, which this header
  only declares. It returns the existing function for the key if present; otherwise
  it constructs a new one, registers it (in \<^verbatim>\<open>functions_\<close> and \<^verbatim>\<open>function_map_\<close>)
  and returns it. The returned \<^verbatim>\<open>Function *\<close> is an address in \<open>function_heap\<close>.
\<close>

definition create_function ::
  "'fk \<Rightarrow> ('cfg, 'dt, 'k, 'fk, 'sn) Program \<Rightarrow> nat \<times> ('cfg, 'dt, 'k, 'fk, 'sn) Program" where
  "create_function key p =
     (case function_map p key of
        Some f \<Rightarrow> (f, p)
      | None \<Rightarrow>
          (let f = length (function_heap p);
               p1 = p\<lparr>function_heap := function_heap p @ [Function key]\<rparr>;
               p2 = p1\<lparr>functions_vec := functions_vec p1 @ [f]\<rparr>;
               p3 = p2\<lparr>function_map := (function_map p2)(key \<mapsto> f)\<rparr>
           in (f, p3)))"

text \<open>One call per key, in order; the results in the same order.\<close>

fun create_functions ::
  "'fk list \<Rightarrow> ('cfg, 'dt, 'k, 'fk, 'sn) Program
     \<Rightarrow> nat list \<times> ('cfg, 'dt, 'k, 'fk, 'sn) Program" where
  "create_functions [] p = ([], p)"
| "create_functions (key # keys) p =
     (let (f, p1) = create_function key p;
          (fs, p2) = create_functions keys p1
      in (f # fs, p2))"

text \<open>
  What the registry keeps true: the functions are stored once each, and the map sends
  a key to the address of the function built from it, and to nothing else.
\<close>

definition function_map_ok :: "('cfg, 'dt, 'k, 'fk, 'sn) Program \<Rightarrow> bool" where
  "function_map_ok p \<longleftrightarrow>
     distinct (function_heap p) \<and>
     (\<forall>key f. function_map p key = Some f \<longleftrightarrow>
        (f < length (function_heap p) \<and> function_heap p ! f = Function key))"

subsection \<open>JIT evaluator cache\<close>

text \<open>
  The parameters of a request, without the calling thread: operator, is-binary flag,
  result type, operand types and trace.
\<close>

type_synonym 'dt evaluator_request = "32 word \<times> bool \<times> 'dt \<times> 'dt \<times> 'dt \<times> string"

text \<open>The \<^verbatim>\<open>JITEvaluatorId\<close> of a request made by thread \<open>thread\<close>.\<close>

definition evaluator_id :: "thread_id \<Rightarrow> 'dt evaluator_request \<Rightarrow> 'dt JITEvaluatorId" where
  "evaluator_id thread req =
     (case req of
        (opc, bin, ret_type, lhs_type, rhs_type, trace) \<Rightarrow>
          \<lparr>thread_id = thread, op = opc, ret = ret_type, lhs = lhs_type, rhs = rhs_type,
           tb = trace, is_binary = bin\<rparr>)"

text \<open>
  Modelled from the spec: the evaluator cache's \<^verbatim>\<open>get_or_compile\<close>, of which this
  header has only the table \<^verbatim>\<open>jit_evaluator_cache\<close>, its mutex and the counter
  \<^verbatim>\<open>jit_evaluator_id\<close>. It builds a \<^verbatim>\<open>JITEvaluatorId\<close> with the calling thread's
  identity and looks it up under the mutex (a call is one atomic step). Hit: the cached
  kernel. Miss: it synthesises and compiles a kernel (\<open>compile_evaluator\<close>, which gets
  the id and the counter for the kernel's name), inserts it under the same id and
  returns it. The returned \<^verbatim>\<open>Kernel *\<close> is an address in \<open>kernel_heap\<close>.
\<close>

definition get_or_compile ::
  "('dt JITEvaluatorId \<Rightarrow> 32 word \<Rightarrow> 'k) \<Rightarrow> thread_id \<Rightarrow> 'dt evaluator_request
     \<Rightarrow> ('cfg, 'dt, 'k, 'fk, 'sn) Program \<Rightarrow> nat \<times> ('cfg, 'dt, 'k, 'fk, 'sn) Program" where
  "get_or_compile compile_evaluator thread req p =
     (let i = evaluator_id thread req
      in case jit_evaluator_cache p i of
           Some ker \<Rightarrow> (ker, p)
         | None \<Rightarrow>
             (let ker = length (kernel_heap p);
                  p1 = p\<lparr>kernel_heap :=
                           kernel_heap p @ [compile_evaluator i (jit_evaluator_id p)],
                         jit_evaluator_id := jit_evaluator_id p + 1\<rparr>;
                  p2 = p1\<lparr>jit_evaluator_cache := (jit_evaluator_cache p1)(i \<mapsto> ker)\<rparr>
              in (ker, p2)))"

text \<open>Requests by several threads, one after the other.\<close>

fun get_or_compile_all ::
  "('dt JITEvaluatorId \<Rightarrow> 32 word \<Rightarrow> 'k) \<Rightarrow> (thread_id \<times> 'dt evaluator_request) list
     \<Rightarrow> ('cfg, 'dt, 'k, 'fk, 'sn) Program \<Rightarrow> ('cfg, 'dt, 'k, 'fk, 'sn) Program" where
  "get_or_compile_all compile_evaluator [] p = p"
| "get_or_compile_all compile_evaluator ((thread, req) # rest) p =
     get_or_compile_all compile_evaluator rest (snd (get_or_compile compile_evaluator thread req p))"

text \<open>
  What the cache keeps true: a cached address is an object of the store, and no two
  ids share one.
\<close>

definition jit_evaluator_cache_ok :: "('cfg, 'dt, 'k, 'fk, 'sn) Program \<Rightarrow> bool" where
  "jit_evaluator_cache_ok p \<longleftrightarrow>
     (\<forall>i ker. jit_evaluator_cache p i = Some ker \<longrightarrow> ker < length (kernel_heap p)) \<and>
     (\<forall>i j ker. jit_evaluator_cache p i = Some ker \<and> jit_evaluator_cache p j = Some ker
        \<longrightarrow> i = j)"

subsection \<open>Runs of the program\<close>

text \<open>
  The operations above that change the state, as one type, and a run of them in any
  order. \<open>dflt\<close>, \<open>Kernel_ctor\<close> and \<open>compile_evaluator\<close> are the parameters of
  \<open>this_thread_config\<close>, \<open>kernel\<close> and \<open>get_or_compile\<close>. Teardown is not among them.
\<close>

datatype ('cfg, 'dt, 'b, 'm, 'fk, 'sn) Program_op =
    ThisThreadConfig thread_id
  | Config
  | MutateConfig config_ref "'cfg \<Rightarrow> 'cfg"
  | NewKernel 'b string 'm
  | GetOrCompile thread_id "'dt evaluator_request"
  | AllocateSNodeTreeId
  | AddSNodeTree 'sn bool
  | DestroySNodeTree "'sn SNodeTree"
  | CreateFunction 'fk

fun Program_step ::
  "'cfg \<Rightarrow> (('cfg, 'dt, 'k, 'fk, 'sn) Program \<Rightarrow> 'b \<Rightarrow> string \<Rightarrow> 'm \<Rightarrow> 'k)
     \<Rightarrow> ('dt JITEvaluatorId \<Rightarrow> 32 word \<Rightarrow> 'k)
     \<Rightarrow> ('cfg, 'dt, 'k, 'fk, 'sn) Program \<Rightarrow> ('cfg, 'dt, 'b, 'm, 'fk, 'sn) Program_op
     \<Rightarrow> ('cfg, 'dt, 'k, 'fk, 'sn) Program" where
  "Program_step dflt Kernel_ctor compile_evaluator p (ThisThreadConfig t) =
     snd (this_thread_config dflt t p)"
| "Program_step dflt Kernel_ctor compile_evaluator p Config = snd (config dflt p)"
| "Program_step dflt Kernel_ctor compile_evaluator p (MutateConfig r f) = mutate_config r f p"
| "Program_step dflt Kernel_ctor compile_evaluator p (NewKernel body name autodiff_mode) =
     snd (kernel Kernel_ctor body name autodiff_mode p)"
| "Program_step dflt Kernel_ctor compile_evaluator p (GetOrCompile t req) =
     snd (get_or_compile compile_evaluator t req p)"
| "Program_step dflt Kernel_ctor compile_evaluator p AllocateSNodeTreeId =
     snd (allocate_snode_tree_id p)"
| "Program_step dflt Kernel_ctor compile_evaluator p (AddSNodeTree root compile_only) =
     snd (add_snode_tree root compile_only p)"
| "Program_step dflt Kernel_ctor compile_evaluator p (DestroySNodeTree tree) =
     destroy_snode_tree tree p"
| "Program_step dflt Kernel_ctor compile_evaluator p (CreateFunction key) =
     snd (create_function key p)"

definition Program_run ::
  "'cfg \<Rightarrow> (('cfg, 'dt, 'k, 'fk, 'sn) Program \<Rightarrow> 'b \<Rightarrow> string \<Rightarrow> 'm \<Rightarrow> 'k)
     \<Rightarrow> ('dt JITEvaluatorId \<Rightarrow> 32 word \<Rightarrow> 'k)
     \<Rightarrow> ('cfg, 'dt, 'b, 'm, 'fk, 'sn) Program_op list \<Rightarrow> ('cfg, 'dt, 'k, 'fk, 'sn) Program
     \<Rightarrow> ('cfg, 'dt, 'k, 'fk, 'sn) Program" where
  "Program_run dflt Kernel_ctor compile_evaluator ops p =
     foldl (Program_step dflt Kernel_ctor compile_evaluator) p ops"

section \<open>Properties\<close>

subsection \<open>JITEvaluatorId\<close>

lemma JITEvaluatorId_eq_iff: "JITEvaluatorId_eq a b \<longleftrightarrow> a = b"
  by (cases a, cases b) (auto simp: JITEvaluatorId_eq_def)

text \<open>
  C4: \<^verbatim>\<open>JITEvaluatorId::operator==\<close> returns true exactly when the two ids agree on
  every one of the seven fields \<open>thread_id\<close>, \<open>op\<close>, \<open>ret\<close>, \<open>lhs\<close>, \<open>rhs\<close>,
  \<open>is_binary\<close> and \<open>tb\<close> (for a record with these seven fields that is equality of
  the records); two ids that differ in the thread identity alone compare unequal.
\<close>

theorem JITEvaluatorId_eq_all_fields:
  "(JITEvaluatorId_eq a b \<longleftrightarrow> a = b) \<and>
   (JITEvaluatorId_eq a (a\<lparr>thread_id := t\<rparr>) \<longleftrightarrow> t = thread_id a) \<and>
   (JITEvaluatorId_eq
      \<lparr>thread_id = t1, op = x, ret = r, lhs = l, rhs = rr, tb = s, is_binary = bin\<rparr>
      \<lparr>thread_id = t2, op = x', ret = r', lhs = l', rhs = rr', tb = s', is_binary = bin'\<rparr>
    \<longleftrightarrow> (t1 = t2 \<and> x = x' \<and> r = r' \<and> l = l' \<and> rr = rr' \<and> bin = bin' \<and> s = s'))"
  by (cases a, cases b) (auto simp: JITEvaluatorId_eq_def)

text \<open>
  C10: the hash of a \<^verbatim>\<open>JITEvaluatorId\<close> is a function of \<open>op\<close>, \<open>ret\<close>, \<open>lhs\<close>,
  \<open>rhs\<close>, \<open>is_binary\<close> and \<open>thread_id\<close> alone: two ids that agree on these six
  fields have the same hash, whatever their trace strings \<open>tb\<close>. So ids that are equal
  under \<^verbatim>\<open>operator==\<close> have equal hashes, and changing only \<open>tb\<close> never changes the
  hash.
\<close>

theorem JITEvaluatorId_hash_ignores_tb:
  "(thread_id a = thread_id b \<and> op a = op b \<and> ret a = ret b \<and> lhs a = lhs b \<and>
    rhs a = rhs b \<and> is_binary a = is_binary b
      \<longrightarrow> JITEvaluatorId_hash dt_hash tid_hash a = JITEvaluatorId_hash dt_hash tid_hash b) \<and>
   (JITEvaluatorId_eq a b
      \<longrightarrow> JITEvaluatorId_hash dt_hash tid_hash a = JITEvaluatorId_hash dt_hash tid_hash b) \<and>
   JITEvaluatorId_hash dt_hash tid_hash (a\<lparr>tb := s\<rparr>) = JITEvaluatorId_hash dt_hash tid_hash a"
  by (simp add: JITEvaluatorId_hash_def JITEvaluatorId_eq_def)

theorem JITEvaluatorId_hash_ignores_tb_witness:
  "\<not> JITEvaluatorId_eq
       \<lparr>thread_id = 1, op = 3, ret = 5::nat, lhs = 6, rhs = 7, tb = ''x'', is_binary = True\<rparr>
       \<lparr>thread_id = 1, op = 3, ret = 5::nat, lhs = 6, rhs = 7, tb = ''y'', is_binary = True\<rparr> \<and>
   JITEvaluatorId_hash word_of_nat word_of_nat
       \<lparr>thread_id = 1, op = 3, ret = 5::nat, lhs = 6, rhs = 7, tb = ''x'', is_binary = True\<rparr> =
   JITEvaluatorId_hash word_of_nat word_of_nat
       \<lparr>thread_id = 1, op = 3, ret = 5::nat, lhs = 6, rhs = 7, tb = ''y'', is_binary = True\<rparr> \<and>
   JITEvaluatorId_hash word_of_nat word_of_nat
       \<lparr>thread_id = 1, op = 3, ret = 5::nat, lhs = 6, rhs = 7, tb = ''x'', is_binary = True\<rparr> =
   0x187060503"
  using JITEvaluatorId_hash_ignores_tb
    [of "\<lparr>thread_id = 1, op = 3, ret = 5::nat, lhs = 6, rhs = 7, tb = ''x'', is_binary = True\<rparr>"
        "\<lparr>thread_id = 1, op = 3, ret = 5::nat, lhs = 6, rhs = 7, tb = ''y'', is_binary = True\<rparr>"
        word_of_nat word_of_nat]
  by (simp add: JITEvaluatorId_eq_def JITEvaluatorId_hash_def)

subsection \<open>Kernel ids\<close>

lemma get_kernel_ids_from:
  "m \<le> 100000 \<Longrightarrow> get_kernel_ids n (int m) =
     (if m + n \<le> 100000 then Inr (map int [m..<m + n], int (m + n)) else Inl TI_ASSERT_failed)"
proof (induction n arbitrary: m)
  case 0
  then show ?case by simp
next
  case (Suc n)
  have step: "int m + 1 = int (Suc m)" by simp
  show ?case
  proof (cases "m < 100000")
    case True
    then have "Suc m \<le> 100000" by simp
    from Suc.IH [OF this] True show ?thesis
      by (simp add: get_kernel_id_def step upt_conv_Cons del: of_nat_Suc upt_Suc)
  next
    case False
    then show ?thesis by (simp add: get_kernel_id_def)
  qed
qed

lemma get_kernel_ids_exhausted: "get_kernel_ids 100001 0 = Inl TI_ASSERT_failed"
  using get_kernel_ids_from [of 0 100001] by simp

text \<open>
  C9: \<^verbatim>\<open>Program::get_kernel_id\<close> hands out 0, 1, 2, ...: started from the initial
  static 0, the first \<open>n\<close> calls all succeed and return \<open>0, ..., n - 1\<close> as long as
  \<open>n \<le> 100000\<close>. A call made when \<open>n < 100000\<close> ids have been issued passes the
  assertion, returns \<open>n\<close> and leaves the static at \<open>n + 1\<close>, which is far below the
  largest \<^verbatim>\<open>int\<close>. The guard is the assertion that the id is below 100000: a call
  succeeds exactly when the static is below 100000 and fails with the fatal assertion
  otherwise, so the call after 100000 ids have been issued fails, and so does every run
  of more than 100000 calls.
\<close>

theorem get_kernel_id_consecutive:
  "(n \<le> 100000 \<longrightarrow> get_kernel_ids n 0 = Inr (map int [0..<n], int n)) \<and>
   (n < 100000 \<longrightarrow>
      get_kernel_id (int n) = Inr (int n, int n + 1) \<and> int n + 1 < 2 ^ 31 \<and>
      get_kernel_ids (Suc n) 0 = Inr (map int [0..<n] @ [int n], int n + 1)) \<and>
   ((\<exists>r. get_kernel_id cur = Inr r) \<longleftrightarrow> cur < 100000) \<and>
   (100000 \<le> cur \<longrightarrow> get_kernel_id cur = Inl TI_ASSERT_failed) \<and>
   (100000 < n \<longrightarrow> get_kernel_ids n 0 = Inl TI_ASSERT_failed)"
  using get_kernel_ids_from [of 0 n] get_kernel_ids_from [of 0 "Suc n"]
  by (auto simp: get_kernel_id_def)

theorem get_kernel_id_consecutive_witness:
  "get_kernel_ids 3 0 = Inr ([0, 1, 2], 3) \<and> get_kernel_id 3 = Inr (3, 4) \<and>
   get_kernel_ids 4 0 = Inr ([0, 1, 2, 3], 4) \<and>
   get_kernel_id 99999 = Inr (99999, 100000) \<and>
   get_kernel_id 100000 = Inl TI_ASSERT_failed \<and>
   get_kernel_ids 100001 0 = Inl TI_ASSERT_failed"
proof -
  have small: "get_kernel_ids 3 0 = Inr ([0, 1, 2], 3) \<and> get_kernel_id 3 = Inr (3, 4) \<and>
      get_kernel_ids 4 0 = Inr ([0, 1, 2, 3], 4)"
    using get_kernel_id_consecutive [of 3 3] by (simp add: upt_conv_Cons)
  have last: "get_kernel_id 99999 = Inr (99999, 100000)"
    by (simp add: get_kernel_id_def)
  have guard: "get_kernel_id 100000 = Inl TI_ASSERT_failed \<and>
      get_kernel_ids 100001 0 = Inl TI_ASSERT_failed"
    using get_kernel_id_consecutive [of 100001 100000] by simp
  from small last guard show ?thesis
    by simp
qed

subsection \<open>Per-thread configurations\<close>

lemma this_thread_config_hit:
  "configs p t = Some c \<Longrightarrow> this_thread_config dflt t p = (t, p)"
  by (simp add: this_thread_config_def configs_at_def)

lemma this_thread_config_miss:
  "configs p t = None \<Longrightarrow>
   this_thread_config dflt t p =
     (t, p\<lparr>configs := (snd (configs_at dflt (configs p) (main_thread_id p)))
                          (t \<mapsto> fst (configs_at dflt (configs p) (main_thread_id p)))\<rparr>)"
  by (simp add: this_thread_config_def configs_at_def split: option.splits)

lemma this_thread_config_entry:
  "configs (snd (this_thread_config dflt t p)) t \<noteq> None"
  by (cases "configs p t") (simp_all add: this_thread_config_hit this_thread_config_miss)

lemma this_thread_config_keeps:
  "configs p u = Some c \<Longrightarrow> configs (snd (this_thread_config dflt t p)) u = Some c"
  by (cases "configs p t")
     (auto simp: this_thread_config_hit this_thread_config_miss configs_at_def split: option.splits)

lemma mutate_config_other:
  "r \<noteq> u \<Longrightarrow> configs (mutate_config r f p) u = configs p u"
  by (simp add: mutate_config_def split: option.splits)

lemma mutate_config_entry:
  "configs p u \<noteq> None \<Longrightarrow> configs (mutate_config r f p) u \<noteq> None"
  by (auto simp: mutate_config_def split: option.splits)

lemma config_step_entry:
  "configs p u \<noteq> None \<Longrightarrow> configs (config_step dflt p e) u \<noteq> None"
  by (cases e) (auto simp: this_thread_config_keeps mutate_config_entry)

lemma config_step_keeps:
  "configs p u = Some c \<Longrightarrow> \<forall>f. e \<noteq> Mutate u f \<Longrightarrow> configs (config_step dflt p e) u = Some c"
  by (cases e) (auto simp: this_thread_config_keeps mutate_config_other)

lemma config_run_entry:
  "configs p u \<noteq> None \<Longrightarrow> configs (config_run dflt es p) u \<noteq> None"
proof (induction es arbitrary: p)
  case Nil
  then show ?case by (simp add: config_run_def)
next
  case (Cons e es)
  from Cons.prems have "configs (config_step dflt p e) u \<noteq> None"
    by (rule config_step_entry)
  from Cons.IH [OF this] show ?case
    by (simp add: config_run_def)
qed

lemma config_run_keeps:
  "configs p u = Some c \<Longrightarrow> \<forall>e\<in>set es. \<forall>f. e \<noteq> Mutate u f \<Longrightarrow>
   configs (config_run dflt es p) u = Some c"
  unfolding config_run_def
  by (induction es arbitrary: p) (simp_all add: config_step_keeps)

lemma config_step_main_thread_id:
  "main_thread_id (config_step dflt p e) = main_thread_id p"
  by (cases e)
     (simp_all add: this_thread_config_def mutate_config_def Let_def split_def
        split: option.splits)

lemma config_step_no_entry:
  "t \<noteq> main_thread_id p \<Longrightarrow> configs p t = None \<Longrightarrow> e \<noteq> Call t \<Longrightarrow>
   configs (config_step dflt p e) t = None"
  by (cases e)
     (auto simp: this_thread_config_def configs_at_def mutate_config_def Let_def
        split: option.splits)

lemma config_run_no_entry:
  "t \<noteq> main_thread_id p \<Longrightarrow> configs p t = None \<Longrightarrow> Call t \<notin> set es \<Longrightarrow>
   configs (config_run dflt es p) t = None"
proof (induction es arbitrary: p)
  case Nil
  then show ?case by (simp add: config_run_def)
next
  case (Cons e es)
  from Cons.prems have e: "e \<noteq> Call t" and es: "Call t \<notin> set es"
    by auto
  have "t \<noteq> main_thread_id (config_step dflt p e)"
    using Cons.prems(1) by (simp add: config_step_main_thread_id)
  moreover have "configs (config_step dflt p e) t = None"
    using Cons.prems(1,2) e by (rule config_step_no_entry)
  ultimately have "configs (config_run dflt es (config_step dflt p e)) t = None"
    using es by (rule Cons.IH)
  then show ?case
    by (simp add: config_run_def)
qed

text \<open>
  C7 (as amended): a call of \<^verbatim>\<open>this_thread_config\<close> by a thread with no entry in
  \<^verbatim>\<open>configs\<close> inserts an entry for the thread that is a copy of the main thread's
  configuration, the value \<^verbatim>\<open>config()\<close> has, and returns a reference to that entry;
  entries of other threads stay as they were. That is the first call of every thread
  other than the main thread that has no entry at the start: whatever calls and
  assignments of other threads come before it, the thread still has no entry when it
  calls for the first time. A call by a thread that has an entry (the first call of the
  main thread, when construction has stored its configuration, is one) returns the
  reference to that entry, inserts nothing and changes nothing. After a thread's first
  call, and after whatever calls and assignments of any threads follow it, the thread's
  next call returns the same reference and leaves the state as it is; if nobody
  assigned through that reference, the entry still holds what the first call left
  there, also when the main configuration has changed since.
\<close>

theorem this_thread_config_lazy_copy:
  "(configs p t = None \<longrightarrow>
      (case this_thread_config dflt t p of
         (r, p') \<Rightarrow>
           r = t \<and> read_config r p' = Some (fst (config dflt p)) \<and>
           read_config r p' = read_config (main_thread_id p') p' \<and>
           (\<forall>u. u \<noteq> t \<and> u \<noteq> main_thread_id p \<longrightarrow> configs p' u = configs p u))) \<and>
   (configs p t \<noteq> None \<longrightarrow> this_thread_config dflt t p = (t, p)) \<and>
   (case this_thread_config dflt t p of
      (r, p1) \<Rightarrow>
        read_config r p1 \<noteq> None \<and>
        this_thread_config dflt t (config_run dflt es p1) = (r, config_run dflt es p1) \<and>
        ((\<forall>e\<in>set es. \<forall>f. e \<noteq> Mutate t f) \<longrightarrow>
           read_config r (config_run dflt es p1) = read_config r p1)) \<and>
   (t \<noteq> main_thread_id p \<and> configs p t = None \<and> Call t \<notin> set before \<longrightarrow>
      configs (config_run dflt before p) t = None \<and>
      (case this_thread_config dflt t (config_run dflt before p) of
         (r, p') \<Rightarrow>
           r = t \<and>
           read_config r p' = Some (fst (config dflt (config_run dflt before p))) \<and>
           read_config r p' = read_config (main_thread_id p') p'))"
proof (intro conjI impI)
  assume first: "t \<noteq> main_thread_id p \<and> configs p t = None \<and> Call t \<notin> set before"
  then show none: "configs (config_run dflt before p) t = None"
    by (simp add: config_run_no_entry)
  show "case this_thread_config dflt t (config_run dflt before p) of
         (r, p') \<Rightarrow>
           r = t \<and>
           read_config r p' = Some (fst (config dflt (config_run dflt before p))) \<and>
           read_config r p' = read_config (main_thread_id p') p'"
    by (auto simp: this_thread_config_miss [OF none] read_config_def config_def configs_at_def
             split: option.splits)
next
  assume miss: "configs p t = None"
  show "case this_thread_config dflt t p of
         (r, p') \<Rightarrow>
           r = t \<and> read_config r p' = Some (fst (config dflt p)) \<and>
           read_config r p' = read_config (main_thread_id p') p' \<and>
           (\<forall>u. u \<noteq> t \<and> u \<noteq> main_thread_id p \<longrightarrow> configs p' u = configs p u)"
    by (auto simp: this_thread_config_miss [OF miss] read_config_def config_def configs_at_def
             split: option.splits)
next
  assume "configs p t \<noteq> None"
  then show "this_thread_config dflt t p = (t, p)"
    by (auto simp: this_thread_config_hit)
next
  obtain r p1 where call: "this_thread_config dflt t p = (r, p1)"
    by (cases "this_thread_config dflt t p")
  have r: "r = t"
    using call by (cases "configs p t") (auto simp: this_thread_config_hit this_thread_config_miss)
  have "configs p1 t \<noteq> None"
    using this_thread_config_entry [of dflt t p] call by simp
  then obtain c where c: "configs p1 t = Some c"
    by auto
  have later: "configs (config_run dflt es p1) t \<noteq> None"
    using c by (simp add: config_run_entry)
  have again: "this_thread_config dflt t (config_run dflt es p1) = (r, config_run dflt es p1)"
    using later r by (auto simp: this_thread_config_hit)
  have same: "(\<forall>e\<in>set es. \<forall>f. e \<noteq> Mutate t f) \<longrightarrow>
      read_config r (config_run dflt es p1) = read_config r p1"
    using c r by (auto simp: read_config_def config_run_keeps)
  show "case this_thread_config dflt t p of
      (r, p1) \<Rightarrow>
        read_config r p1 \<noteq> None \<and>
        this_thread_config dflt t (config_run dflt es p1) = (r, config_run dflt es p1) \<and>
        ((\<forall>e\<in>set es. \<forall>f. e \<noteq> Mutate t f) \<longrightarrow>
           read_config r (config_run dflt es p1) = read_config r p1)"
    using call c r again same by (simp add: read_config_def)
qed

theorem this_thread_config_lazy_copy_witness:
  "configs (Program_init 0 [0 \<mapsto> (5::nat)] :: (nat, unit, unit, unit, unit) Program) 1 = None \<and>
   this_thread_config 0 1 (Program_init 0 [0 \<mapsto> (5::nat)] :: (nat, unit, unit, unit, unit) Program)
     = (1, (Program_init 0 [0 \<mapsto> 5, 1 \<mapsto> 5])) \<and>
   configs (Program_init 0 [0 \<mapsto> 5, 1 \<mapsto> (5::nat)] :: (nat, unit, unit, unit, unit) Program) 1 \<noteq> None \<and>
   this_thread_config 0 1 (Program_init 0 [0 \<mapsto> (5::nat), 1 \<mapsto> 5] :: (nat, unit, unit, unit, unit) Program)
     = (1, Program_init 0 [0 \<mapsto> 5, 1 \<mapsto> 5]) \<and>
   read_config 1
     (config_run 0 [Mutate 0 Suc, Call 2]
        (Program_init 0 [0 \<mapsto> 5, 1 \<mapsto> (5::nat)] :: (nat, unit, unit, unit, unit) Program)) = Some 5 \<and>
   read_config 0
     (config_run 0 [Mutate 0 Suc, Call 2]
        (Program_init 0 [0 \<mapsto> 5, 1 \<mapsto> (5::nat)] :: (nat, unit, unit, unit, unit) Program)) = Some 6 \<and>
   (1::nat) \<noteq> main_thread_id
        (Program_init 0 [0 \<mapsto> (5::nat)] :: (nat, unit, unit, unit, unit) Program) \<and>
   Call 1 \<notin> set [Call 0, Mutate 0 Suc, Call 2 :: nat config_event] \<and>
   configs (config_run 0 [Call 0, Mutate 0 Suc, Call 2]
        (Program_init 0 [0 \<mapsto> (5::nat)] :: (nat, unit, unit, unit, unit) Program)) 1 = None \<and>
   read_config 1
     (snd (this_thread_config 0 1
        (config_run 0 [Call 0, Mutate 0 Suc, Call 2]
           (Program_init 0 [0 \<mapsto> (5::nat)] :: (nat, unit, unit, unit, unit) Program)))) = Some 6"
  using this_thread_config_lazy_copy
    [where p = "Program_init 0 [0 \<mapsto> (5::nat)] :: (nat, unit, unit, unit, unit) Program"
       and t = 1 and dflt = 0 and es = "[Mutate 0 Suc, Call 2]"
       and before = "[Call 0, Mutate 0 Suc, Call 2]"]
    this_thread_config_lazy_copy
    [where p = "Program_init 0 [0 \<mapsto> (5::nat), 1 \<mapsto> 5] :: (nat, unit, unit, unit, unit) Program"
       and t = 1 and dflt = 0 and es = "[Mutate 0 Suc, Call 2]"
       and before = "[]"]
  by (simp add: Program_init_def this_thread_config_def configs_at_def read_config_def
        config_run_def mutate_config_def fun_upd_twist)

text \<open>
  C7 as stated fails for the main thread. Thread 0 is the main thread and construction
  has stored its configuration, 5. Its first call of \<^verbatim>\<open>this_thread_config\<close> finds that
  entry, returns it and leaves the program as it was: nothing is inserted.
\<close>

theorem this_thread_config_main_first_call_counterexample:
  "main_thread_id (Program_init 0 [0 \<mapsto> 5] :: (nat, unit, unit, unit, unit) Program) = 0 \<and>
   configs (Program_init 0 [0 \<mapsto> 5] :: (nat, unit, unit, unit, unit) Program) = [0 \<mapsto> 5] \<and>
   this_thread_config 0 0 (Program_init 0 [0 \<mapsto> 5] :: (nat, unit, unit, unit, unit) Program)
     = (0, Program_init 0 [0 \<mapsto> 5]) \<and>
   configs (snd (this_thread_config 0 0
      (Program_init 0 [0 \<mapsto> 5] :: (nat, unit, unit, unit, unit) Program))) = [0 \<mapsto> 5]"
  by (simp add: Program_init_def this_thread_config_def configs_at_def)

text \<open>
  C3 (as amended): let \<open>t1\<close> and \<open>t2\<close> be distinct threads that both have their entry
  in \<^verbatim>\<open>configs\<close>, so that \<^verbatim>\<open>this_thread_config\<close> returns the references \<open>t1\<close> and
  \<open>t2\<close> and changes nothing. Assigning through \<open>t1\<close>'s reference changes \<open>t1\<close>'s
  configuration as assigned and leaves \<open>t2\<close>'s configuration unchanged; it leaves the
  main thread's configuration unchanged when \<open>t1\<close> is not the main thread.
\<close>

theorem config_isolation:
  "t1 \<noteq> t2 \<Longrightarrow> configs q t1 \<noteq> None \<Longrightarrow> configs q t2 \<noteq> None \<Longrightarrow>
   this_thread_config dflt t1 q = (t1, q) \<and> this_thread_config dflt t2 q = (t2, q) \<and>
   read_config t1 (mutate_config t1 f q) = map_option f (read_config t1 q) \<and>
   read_config t2 (mutate_config t1 f q) = read_config t2 q \<and>
   (t1 \<noteq> main_thread_id q \<longrightarrow>
      fst (config dflt (mutate_config t1 f q)) = fst (config dflt q) \<and>
      read_config (main_thread_id q) (mutate_config t1 f q) = read_config (main_thread_id q) q)"
  by (auto simp: this_thread_config_hit read_config_def mutate_config_def config_def configs_at_def
           split: option.splits)

theorem config_isolation_witness:
  "(1::nat) \<noteq> 2 \<and>
   read_config 2 (mutate_config 1 Suc
      (Program_init 0 [0 \<mapsto> 5, 1 \<mapsto> 5, 2 \<mapsto> 5] :: (nat, unit, unit, unit, unit) Program)) = Some 5 \<and>
   read_config 1 (mutate_config 1 Suc
      (Program_init 0 [0 \<mapsto> 5, 1 \<mapsto> 5, 2 \<mapsto> 5] :: (nat, unit, unit, unit, unit) Program)) = Some 6 \<and>
   fst (config 0 (mutate_config 1 Suc
      (Program_init 0 [0 \<mapsto> 5, 1 \<mapsto> 5, 2 \<mapsto> 5] :: (nat, unit, unit, unit, unit) Program))) = 5"
  using config_isolation
    [of 1 2 "Program_init 0 [0 \<mapsto> 5, 1 \<mapsto> 5, 2 \<mapsto> 5] :: (nat, unit, unit, unit, unit) Program" 0 Suc]
  by (simp add: Program_init_def read_config_def config_def configs_at_def)

text \<open>
  C3 as stated fails when the first thread is the main thread. Thread 0 is the main
  thread and its configuration is 5; threads 0 and 1 both call
  \<^verbatim>\<open>this_thread_config\<close>, and each call after that returns the thread's own entry.
  Assigning through thread 0's reference then changes the main thread's configuration,
  the value of \<^verbatim>\<open>config()\<close>, from 5 to 6.
\<close>

theorem config_isolation_main_counterexample:
  "(0::nat) \<noteq> 1 \<and>
   fst (this_thread_config 0 0
     (config_run 0 [Call 0, Call 1]
          (Program_init 0 [0 \<mapsto> 5] :: (nat, unit, unit, unit, unit) Program))) = 0 \<and>
   fst (this_thread_config 0 1
     (config_run 0 [Call 0, Call 1]
          (Program_init 0 [0 \<mapsto> 5] :: (nat, unit, unit, unit, unit) Program))) = 1 \<and>
   fst (config 0
     (config_run 0 [Call 0, Call 1]
          (Program_init 0 [0 \<mapsto> 5] :: (nat, unit, unit, unit, unit) Program))) = 5 \<and>
   fst (config 0 (mutate_config 0 Suc
     (config_run 0 [Call 0, Call 1]
          (Program_init 0 [0 \<mapsto> 5] :: (nat, unit, unit, unit, unit) Program)))) = 6"
  by (simp add: Program_init_def this_thread_config_def configs_at_def config_def mutate_config_def
        config_run_def)

subsection \<open>Kernels\<close>

lemma kernel_calls_kernels:
  "\<exists>rs. kernels (kernel_calls ctor args p) = kernels p @ rs \<and> length rs = length args"
proof (induction args arbitrary: p)
  case Nil
  then show ?case by simp
next
  case (Cons a args)
  obtain body name mode where a: "a = (body, name, mode)"
    by (cases a)
  from Cons.IH [of "snd (kernel ctor body name mode p)"] a show ?case
    by (auto simp: kernel_def Let_def)
qed

lemma kernel_calls_heap:
  "\<exists>ks. kernel_heap (kernel_calls ctor args p) = kernel_heap p @ ks \<and> length ks = length args"
proof (induction args arbitrary: p)
  case Nil
  then show ?case by simp
next
  case (Cons a args)
  obtain body name mode where a: "a = (body, name, mode)"
    by (cases a)
  from Cons.IH [of "snd (kernel ctor body name mode p)"] a show ?case
    by (auto simp: kernel_def Let_def)
qed

lemma Program_step_kernels:
  "kernels (Program_step dflt ctor ce p opn) =
     (case opn of NewKernel body name mode \<Rightarrow> kernels p @ [length (kernel_heap p)]
      | _ \<Rightarrow> kernels p)"
  by (cases opn)
     (simp_all add: this_thread_config_def config_def mutate_config_def kernel_def
        get_or_compile_def allocate_snode_tree_id_def add_snode_tree_def destroy_snode_tree_def
        create_function_def Let_def split_def split: option.splits list.splits)

lemma Program_step_kernel_heap:
  "kernel_heap (Program_step dflt ctor ce p opn) =
     (case opn of
        NewKernel body name mode \<Rightarrow> kernel_heap p @ [ctor p body name mode]
      | GetOrCompile t req \<Rightarrow>
          (if jit_evaluator_cache p (evaluator_id t req) = None
           then kernel_heap p @ [ce (evaluator_id t req) (jit_evaluator_id p)]
           else kernel_heap p)
      | _ \<Rightarrow> kernel_heap p)"
  by (cases opn)
     (auto simp: this_thread_config_def config_def mutate_config_def kernel_def
        get_or_compile_def allocate_snode_tree_id_def add_snode_tree_def destroy_snode_tree_def
        create_function_def Let_def split_def split: option.splits list.splits)

lemma Program_step_prefix:
  "prefix (kernels p) (kernels (Program_step dflt ctor ce p opn))"
  "prefix (kernel_heap p) (kernel_heap (Program_step dflt ctor ce p opn))"
  by (simp_all add: Program_step_kernels Program_step_kernel_heap split: Program_op.splits)

lemma Program_run_prefix:
  "prefix (kernels p) (kernels (Program_run dflt ctor ce ops p)) \<and>
   prefix (kernel_heap p) (kernel_heap (Program_run dflt ctor ce ops p)) \<and>
   length (kernels (Program_run dflt ctor ce ops p)) =
     length (kernels p) +
     length (filter (\<lambda>opn. case opn of NewKernel body name mode \<Rightarrow> True | _ \<Rightarrow> False) ops)"
proof (induction ops arbitrary: p)
  case Nil
  then show ?case by (simp add: Program_run_def)
next
  case (Cons opn ops)
  let ?p1 = "Program_step dflt ctor ce p opn"
  have run: "Program_run dflt ctor ce (opn # ops) p = Program_run dflt ctor ce ops ?p1"
    by (simp add: Program_run_def)
  have len: "length (kernels ?p1) =
      length (kernels p) + (case opn of NewKernel body name mode \<Rightarrow> 1 | _ \<Rightarrow> 0)"
    by (simp add: Program_step_kernels split: Program_op.splits)
  from Cons.IH [of ?p1] Program_step_prefix [of p dflt ctor ce opn] len show ?case
    unfolding run by (auto intro: prefix_order.trans split: Program_op.splits)
qed

text \<open>
  C8: \<^verbatim>\<open>Program::kernel\<close> allocates one new \<^verbatim>\<open>Kernel\<close> object, appends its address at
  the end of \<^verbatim>\<open>kernels\<close> and returns that address; the objects made before stay where
  they were, unchanged. After any number of calls the old list is a prefix of the new
  one, which is longer by the number of calls. No other operation changes the list:
  \<^verbatim>\<open>this_thread_config\<close>, \<^verbatim>\<open>config\<close> and assignment to a configuration leave the list
  and the objects alone, and so does every step of the program other than a call of
  \<^verbatim>\<open>kernel\<close> (the evaluator cache, the SNode tree registry and the function registry
  included), except that a miss of the evaluator cache adds one object behind the
  existing ones. So after a run of any operations in any order the old list is a
  prefix of the new one, the old objects are a prefix of the new objects, and the list
  has grown by exactly the number of calls of \<^verbatim>\<open>kernel\<close> in the run.
\<close>

theorem kernel_append_only:
  "(case kernel ctor body name mode p of
      (r, p') \<Rightarrow>
        kernels p' = kernels p @ [r] \<and> r = length (kernel_heap p) \<and>
        kernel_heap p' = kernel_heap p @ [ctor p body name mode] \<and>
        kernel_heap p' ! r = ctor p body name mode) \<and>
   prefix (kernels p) (kernels (kernel_calls ctor args p)) \<and>
   prefix (kernel_heap p) (kernel_heap (kernel_calls ctor args p)) \<and>
   length (kernels (kernel_calls ctor args p)) = length (kernels p) + length args \<and>
   kernels (snd (this_thread_config dflt t p)) = kernels p \<and>
   kernel_heap (snd (this_thread_config dflt t p)) = kernel_heap p \<and>
   kernels (snd (config dflt p)) = kernels p \<and>
   kernel_heap (snd (config dflt p)) = kernel_heap p \<and>
   kernels (mutate_config cr f p) = kernels p \<and>
   kernel_heap (mutate_config cr f p) = kernel_heap p \<and>
   kernels (Program_step dflt ctor ce p opn) =
     (case opn of NewKernel body' name' mode' \<Rightarrow> kernels p @ [length (kernel_heap p)]
      | _ \<Rightarrow> kernels p) \<and>
   kernel_heap (Program_step dflt ctor ce p opn) =
     (case opn of
        NewKernel body' name' mode' \<Rightarrow> kernel_heap p @ [ctor p body' name' mode']
      | GetOrCompile t' req \<Rightarrow>
          (if jit_evaluator_cache p (evaluator_id t' req) = None
           then kernel_heap p @ [ce (evaluator_id t' req) (jit_evaluator_id p)]
           else kernel_heap p)
      | _ \<Rightarrow> kernel_heap p) \<and>
   prefix (kernels p) (kernels (Program_step dflt ctor ce p opn)) \<and>
   prefix (kernel_heap p) (kernel_heap (Program_step dflt ctor ce p opn)) \<and>
   prefix (kernels p) (kernels (Program_run dflt ctor ce ops p)) \<and>
   prefix (kernel_heap p) (kernel_heap (Program_run dflt ctor ce ops p)) \<and>
   length (kernels (Program_run dflt ctor ce ops p)) =
     length (kernels p) +
     length (filter (\<lambda>opn. case opn of NewKernel body' name' mode' \<Rightarrow> True | _ \<Rightarrow> False) ops)"
proof -
  note step = Program_step_kernels [of dflt ctor ce p opn]
    Program_step_kernel_heap [of dflt ctor ce p opn]
    Program_step_prefix [of p dflt ctor ce opn]
  note run = Program_run_prefix [of p dflt ctor ce ops]
  have one: "case kernel ctor body name mode p of
      (r, p') \<Rightarrow>
        kernels p' = kernels p @ [r] \<and> r = length (kernel_heap p) \<and>
        kernel_heap p' = kernel_heap p @ [ctor p body name mode] \<and>
        kernel_heap p' ! r = ctor p body name mode"
    by (simp add: kernel_def Let_def)
  obtain rs where rs: "kernels (kernel_calls ctor args p) = kernels p @ rs" "length rs = length args"
    using kernel_calls_kernels by blast
  obtain ks where ks: "kernel_heap (kernel_calls ctor args p) = kernel_heap p @ ks"
    using kernel_calls_heap by blast
  have cfg: "kernels (snd (this_thread_config dflt t p)) = kernels p"
    "kernel_heap (snd (this_thread_config dflt t p)) = kernel_heap p"
    by (simp_all add: this_thread_config_def Let_def split_def)
  have cfg2: "kernels (snd (config dflt p)) = kernels p"
    "kernel_heap (snd (config dflt p)) = kernel_heap p"
    "kernels (mutate_config cr f p) = kernels p"
    "kernel_heap (mutate_config cr f p) = kernel_heap p"
    by (simp_all add: config_def mutate_config_def split_def Let_def split: option.splits)
  show ?thesis
    using one rs ks cfg cfg2 step run by simp
qed

subsection \<open>SNode tree registry\<close>

lemma allocate_snode_tree_id_pop:
  "free_snode_tree_ids p = k # rest \<Longrightarrow>
   allocate_snode_tree_id p = (k, p\<lparr>free_snode_tree_ids := rest\<rparr>)"
  by (simp add: allocate_snode_tree_id_def)

lemma allocate_snode_tree_id_grow:
  "free_snode_tree_ids p = [] \<Longrightarrow>
   allocate_snode_tree_id p =
     (int (length (snode_trees p)), p\<lparr>snode_trees := snode_trees p @ [None]\<rparr>)"
  by (simp add: allocate_snode_tree_id_def)

lemma add_snode_tree_grow:
  "free_snode_tree_ids p = [] \<Longrightarrow>
   add_snode_tree root c p =
     (\<lparr>tree_id = int (length (snode_trees p)), tree_root = root\<rparr>,
      p\<lparr>snode_trees :=
          snode_trees p @ [Some \<lparr>tree_id = int (length (snode_trees p)), tree_root = root\<rparr>]\<rparr>)"
  by (simp add: add_snode_tree_def allocate_snode_tree_id_grow set_slot_def Let_def)

lemma add_snode_trees_grow:
  "free_snode_tree_ids p = [] \<Longrightarrow>
   free_snode_tree_ids (add_snode_trees roots p) = [] \<and>
   snode_trees (add_snode_trees roots p) =
     snode_trees p @
     map (\<lambda>(i, root). Some \<lparr>tree_id = int i, tree_root = root\<rparr>)
       (enumerate (length (snode_trees p)) roots)"
proof (induction roots arbitrary: p)
  case Nil
  then show ?case by simp
next
  case (Cons root roots)
  let ?p1 = "snd (add_snode_tree root False p)"
  have p1: "free_snode_tree_ids ?p1 = []"
    "snode_trees ?p1 =
       snode_trees p @ [Some \<lparr>tree_id = int (length (snode_trees p)), tree_root = root\<rparr>]"
    using Cons.prems by (simp_all add: add_snode_tree_grow)
  from Cons.IH [OF p1(1)] p1(2) show ?case
    by simp
qed

lemma after_adds:
  assumes "free_snode_tree_ids p = []" "snode_trees p = []"
  shows "free_snode_tree_ids (add_snode_trees roots p) = []"
    and "length (snode_trees (add_snode_trees roots p)) = length roots"
    and "k < length roots \<Longrightarrow>
         slot (snode_trees (add_snode_trees roots p)) (int k) =
           Some \<lparr>tree_id = int k, tree_root = roots ! k\<rparr>"
  using add_snode_trees_grow [OF assms(1), of roots] assms(2)
  by (simp_all add: slot_def nth_enumerate_eq)

lemma init_no_trees:
  "free_snode_tree_ids (Program_init main cs) = []" "snode_trees (Program_init main cs) = []"
  by (simp_all add: Program_init_def)

text \<open>
  C1: when the free-id stack is non-empty, \<^verbatim>\<open>allocate_snode_tree_id\<close> returns its top
  and pops it; when the stack is empty it returns the size of the tree list. The id of
  a tree just destroyed is the next id allocated, and after two destructions the ids
  come back in the reverse order (most recently freed first). In particular, after
  adding \<open>N\<close> trees to a fresh program the free stack is empty and the next allocation
  yields \<open>N\<close>; if the tree with id \<open>n < N\<close> is destroyed first, the next allocation
  yields \<open>n\<close>, which is not \<open>N\<close>.
\<close>

theorem allocate_snode_tree_id_lifo:
  "(free_snode_tree_ids (p :: ('cfg, 'dt, 'k, 'fk, 'sn) Program) = k # rest \<longrightarrow>
      allocate_snode_tree_id p = (k, p\<lparr>free_snode_tree_ids := rest\<rparr>)) \<and>
   (free_snode_tree_ids p = [] \<longrightarrow>
      fst (allocate_snode_tree_id p) = int (length (snode_trees p))) \<and>
   allocate_snode_tree_id (destroy_snode_tree t p) =
     (tree_id t, (destroy_snode_tree t p)\<lparr>free_snode_tree_ids := free_snode_tree_ids p\<rparr>) \<and>
   fst (allocate_snode_tree_id (destroy_snode_tree t2 (destroy_snode_tree t1 p))) = tree_id t2 \<and>
   fst (allocate_snode_tree_id
          (snd (allocate_snode_tree_id (destroy_snode_tree t2 (destroy_snode_tree t1 p)))))
     = tree_id t1 \<and>
   fst (allocate_snode_tree_id
          (add_snode_trees roots (Program_init main cs :: ('cfg, 'dt, 'k, 'fk, 'sn) Program)))
     = int (length roots) \<and>
   (n < length roots \<longrightarrow>
      slot (snode_trees
              (add_snode_trees roots (Program_init main cs :: ('cfg, 'dt, 'k, 'fk, 'sn) Program)))
           (int n)
        = Some \<lparr>tree_id = int n, tree_root = roots ! n\<rparr> \<and>
      fst (allocate_snode_tree_id
             (destroy_snode_tree \<lparr>tree_id = int n, tree_root = roots ! n\<rparr>
                (add_snode_trees roots
                   (Program_init main cs :: ('cfg, 'dt, 'k, 'fk, 'sn) Program)))) = int n \<and>
      int n \<noteq> int (length roots))"
  by (simp add: allocate_snode_tree_id_def destroy_snode_tree_def after_adds init_no_trees)

theorem allocate_snode_tree_id_lifo_witness:
  "fst (allocate_snode_tree_id
         (add_snode_trees [''a'', ''b'', ''c'']
            (Program_init 0 Map.empty :: (unit, unit, unit, unit, string) Program))) = 3 \<and>
   slot (snode_trees (add_snode_trees [''a'', ''b'', ''c'']
            (Program_init 0 Map.empty :: (unit, unit, unit, unit, string) Program))) 1
     = Some \<lparr>tree_id = 1, tree_root = ''b''\<rparr> \<and>
   fst (allocate_snode_tree_id
          (destroy_snode_tree \<lparr>tree_id = 1, tree_root = ''b''\<rparr>
             (add_snode_trees [''a'', ''b'', ''c'']
                (Program_init 0 Map.empty :: (unit, unit, unit, unit, string) Program)))) = 1"
  using allocate_snode_tree_id_lifo
    [where roots = "[''a'', ''b'', ''c'']" and n = 1 and main = 0 and cs = Map.empty
       and p = "Program_init 0 Map.empty :: (unit, unit, unit, unit, string) Program"
       and k = 0 and rest = "[]" and t = "\<lparr>tree_id = 1, tree_root = ''b''\<rparr>"
       and ?t1.0 = "\<lparr>tree_id = 1, tree_root = ''b''\<rparr>"
       and ?t2.0 = "\<lparr>tree_id = 1, tree_root = ''b''\<rparr>"]
  by simp

lemma slot_set_slot:
  "slot (set_slot i v xs) j = (if j = i \<and> 0 \<le> i \<and> nat i < length xs then v else slot xs j)"
  by (auto simp: slot_def set_slot_def nth_list_update)

lemma slot_append_None: "slot (xs @ [None]) j = slot xs j"
  by (auto simp: slot_def nth_append)

lemma get_snode_root_fails_iff:
  "get_snode_root i q = Inl TI_ASSERT_failed \<longleftrightarrow> slot (snode_trees q) i = None"
  by (simp add: get_snode_root_def split: option.splits)

lemma slot_destroy:
  "slot (snode_trees (destroy_snode_tree t p)) j =
     (if j = tree_id t then None else slot (snode_trees p) j)"
  by (simp add: destroy_snode_tree_def slot_set_slot) (auto simp: slot_def)

lemma slot_add_other:
  "j \<noteq> tree_id (fst (add_snode_tree root c p)) \<Longrightarrow>
   slot (snode_trees (snd (add_snode_tree root c p))) j = slot (snode_trees p) j"
  by (cases "free_snode_tree_ids p")
     (auto simp: add_snode_tree_def allocate_snode_tree_id_def Let_def slot_set_slot
        slot_append_None)

lemma tree_run_keeps_dead:
  "slot (snode_trees p) k = None \<Longrightarrow> k \<notin> set (fst (tree_run es p)) \<Longrightarrow>
   slot (snode_trees (snd (tree_run es p))) k = None"
proof (induction es p rule: tree_run.induct)
  case (1 p)
  then show ?case by simp
next
  case (2 root compile_only es p)
  obtain tree p1 where a: "add_snode_tree root compile_only p = (tree, p1)"
    by (cases "add_snode_tree root compile_only p")
  obtain ids p2 where r: "tree_run es p1 = (ids, p2)"
    by (cases "tree_run es p1")
  from "2.prems" a r have k: "k \<noteq> tree_id tree" "k \<notin> set ids"
    by simp_all
  have "slot (snode_trees p1) k = None"
    using slot_add_other [of k root compile_only p] a k(1) "2.prems"(1) by simp
  with "2.IH" [OF a [symmetric] refl] r k(2) a show ?case
    by simp
next
  case (3 tree es p)
  have "slot (snode_trees (destroy_snode_tree tree p)) k = None"
    using "3.prems"(1) by (simp add: slot_destroy)
  with "3.IH" "3.prems"(2) show ?case
    by simp
qed

lemma add_after_destroy:
  assumes "slot (snode_trees p) (tree_id t) = Some t'"
  shows "add_snode_tree root c (destroy_snode_tree t p) =
           (\<lparr>tree_id = tree_id t, tree_root = root\<rparr>,
            p\<lparr>snode_trees :=
                set_slot (tree_id t) (Some \<lparr>tree_id = tree_id t, tree_root = root\<rparr>) (snode_trees p)\<rparr>)"
proof -
  from assms have range: "0 \<le> tree_id t" "nat (tree_id t) < length (snode_trees p)"
    by (auto simp: slot_def split: if_splits)
  then show ?thesis
    by (simp add: add_snode_tree_def allocate_snode_tree_id_def destroy_snode_tree_def
          set_slot_def Let_def)
qed

text \<open>
  C6: let \<open>t\<close> be a live tree with id \<open>k\<close>, that is, slot \<open>k\<close> holds \<open>t\<close> (and
  \<^verbatim>\<open>get_snode_root(k)\<close> returns its root). After \<^verbatim>\<open>destroy_snode_tree(t)\<close> the id \<open>k\<close>
  is on top of the free-id stack, slot \<open>k\<close> is empty and \<^verbatim>\<open>get_snode_root(k)\<close> fails
  with the fatal assertion; it keeps failing through any run of additions and
  destructions in which no addition is given the id \<open>k\<close>; the next addition right
  after the destruction is given \<open>k\<close>, and then \<^verbatim>\<open>get_snode_root(k)\<close> returns the new
  root. In every state \<^verbatim>\<open>get_snode_root(i)\<close> fails exactly when \<open>i\<close> names no live
  tree, and returns the root of the tree that \<open>i\<close> names otherwise.
\<close>

theorem destroyed_tree_lookup_fails:
  "(slot (snode_trees p) k = Some t \<and> tree_id t = k \<longrightarrow>
      get_snode_root k p = Inr (tree_root t) \<and>
      free_snode_tree_ids (destroy_snode_tree t p) = k # free_snode_tree_ids p \<and>
      slot (snode_trees (destroy_snode_tree t p)) k = None \<and>
      get_snode_root k (destroy_snode_tree t p) = Inl TI_ASSERT_failed \<and>
      (k \<notin> set (fst (tree_run es (destroy_snode_tree t p))) \<longrightarrow>
         get_snode_root k (snd (tree_run es (destroy_snode_tree t p))) = Inl TI_ASSERT_failed) \<and>
      (case add_snode_tree root c (destroy_snode_tree t p) of
         (t', p') \<Rightarrow> tree_id t' = k \<and> get_snode_root k p' = Inr root)) \<and>
   (get_snode_root i p = Inl TI_ASSERT_failed \<longleftrightarrow> slot (snode_trees p) i = None) \<and>
   (get_snode_root i p = Inr r \<longleftrightarrow> (\<exists>tr. slot (snode_trees p) i = Some tr \<and> tree_root tr = r))"
proof -
  have live: "get_snode_root k p = Inr (tree_root t) \<and>
      free_snode_tree_ids (destroy_snode_tree t p) = k # free_snode_tree_ids p \<and>
      slot (snode_trees (destroy_snode_tree t p)) k = None \<and>
      get_snode_root k (destroy_snode_tree t p) = Inl TI_ASSERT_failed \<and>
      (k \<notin> set (fst (tree_run es (destroy_snode_tree t p))) \<longrightarrow>
         get_snode_root k (snd (tree_run es (destroy_snode_tree t p))) = Inl TI_ASSERT_failed) \<and>
      (case add_snode_tree root c (destroy_snode_tree t p) of
         (t', p') \<Rightarrow> tree_id t' = k \<and> get_snode_root k p' = Inr root)"
    if t: "slot (snode_trees p) k = Some t" and k: "tree_id t = k"
  proof -
    have dead: "slot (snode_trees (destroy_snode_tree t p)) k = None"
      using k by (simp add: slot_destroy)
    have range: "0 \<le> k" "nat k < length (snode_trees p)"
      using t by (auto simp: slot_def split: if_splits)
    have 1: "get_snode_root k p = Inr (tree_root t)"
      using t by (simp add: get_snode_root_def)
    have 2: "free_snode_tree_ids (destroy_snode_tree t p) = k # free_snode_tree_ids p"
      using k by (simp add: destroy_snode_tree_def)
    have 3: "get_snode_root k (destroy_snode_tree t p) = Inl TI_ASSERT_failed"
      using dead by (simp add: get_snode_root_fails_iff)
    have 4: "k \<notin> set (fst (tree_run es (destroy_snode_tree t p))) \<longrightarrow>
         get_snode_root k (snd (tree_run es (destroy_snode_tree t p))) = Inl TI_ASSERT_failed"
      using tree_run_keeps_dead [OF dead] by (simp add: get_snode_root_fails_iff)
    have 5: "case add_snode_tree root c (destroy_snode_tree t p) of
         (t', p') \<Rightarrow> tree_id t' = k \<and> get_snode_root k p' = Inr root"
      using t k range add_after_destroy [of p t t root c]
      by (simp add: get_snode_root_def slot_set_slot)
    from 1 2 dead 3 4 5 show ?thesis
      by simp
  qed
  have fails: "get_snode_root i p = Inl TI_ASSERT_failed \<longleftrightarrow> slot (snode_trees p) i = None"
    by (rule get_snode_root_fails_iff)
  have ok: "get_snode_root i p = Inr r \<longleftrightarrow> (\<exists>tr. slot (snode_trees p) i = Some tr \<and> tree_root tr = r)"
    by (auto simp: get_snode_root_def split: option.splits)
  show ?thesis
    by (rule conjI [OF _ conjI [OF fails ok]], intro impI, elim conjE, rule live, assumption+)
qed

theorem destroyed_tree_lookup_fails_witness:
  "slot (snode_trees (add_snode_trees [''a'', ''b'', ''c'']
            (Program_init 0 Map.empty :: (unit, unit, unit, unit, string) Program))) 1
     = Some \<lparr>tree_id = 1, tree_root = ''b''\<rparr> \<and>
   get_snode_root 1 (add_snode_trees [''a'', ''b'', ''c'']
            (Program_init 0 Map.empty :: (unit, unit, unit, unit, string) Program)) = Inr ''b'' \<and>
   get_snode_root 1
     (destroy_snode_tree \<lparr>tree_id = 1, tree_root = ''b''\<rparr>
        (add_snode_trees [''a'', ''b'', ''c'']
           (Program_init 0 Map.empty :: (unit, unit, unit, unit, string) Program)))
     = Inl TI_ASSERT_failed \<and>
   fst (tree_run [Destroy \<lparr>tree_id = 0, tree_root = ''a''\<rparr>, Add ''d'' False]
     (destroy_snode_tree \<lparr>tree_id = 1, tree_root = ''b''\<rparr>
        (add_snode_trees [''a'', ''b'', ''c'']
           (Program_init 0 Map.empty :: (unit, unit, unit, unit, string) Program)))) = [0] \<and>
   get_snode_root 1
     (snd (tree_run [Destroy \<lparr>tree_id = 0, tree_root = ''a''\<rparr>, Add ''d'' False]
        (destroy_snode_tree \<lparr>tree_id = 1, tree_root = ''b''\<rparr>
           (add_snode_trees [''a'', ''b'', ''c'']
              (Program_init 0 Map.empty :: (unit, unit, unit, unit, string) Program)))))
     = Inl TI_ASSERT_failed \<and>
   get_snode_root 1
     (snd (add_snode_tree ''e'' False
        (destroy_snode_tree \<lparr>tree_id = 1, tree_root = ''b''\<rparr>
           (add_snode_trees [''a'', ''b'', ''c'']
              (Program_init 0 Map.empty :: (unit, unit, unit, unit, string) Program)))))
     = Inr ''e'' \<and>
   get_snode_root (- 1) (add_snode_trees [''a'', ''b'', ''c'']
            (Program_init 0 Map.empty :: (unit, unit, unit, unit, string) Program))
     = Inl TI_ASSERT_failed"
  using destroyed_tree_lookup_fails
    [where p = "add_snode_trees [''a'', ''b'', ''c'']
            (Program_init 0 Map.empty :: (unit, unit, unit, unit, string) Program)"
       and k = 1 and t = "\<lparr>tree_id = 1, tree_root = ''b''\<rparr>"
       and es = "[Destroy \<lparr>tree_id = 0, tree_root = ''a''\<rparr>, Add ''d'' False]"
       and root = "''e''" and c = False and i = "- 1" and r = "''z''"]
  by (simp add: after_adds init_no_trees add_snode_tree_def allocate_snode_tree_id_def
        destroy_snode_tree_def Let_def slot_def set_slot_def Program_init_def)

subsection \<open>Function registry\<close>

lemma create_function_hit:
  "function_map p key = Some f \<Longrightarrow> create_function key p = (f, p)"
  by (simp add: create_function_def)

lemma create_function_miss:
  "function_map p key = None \<Longrightarrow>
   create_function key p =
     (length (function_heap p),
      p\<lparr>function_heap := function_heap p @ [Function key],
        functions_vec := functions_vec p @ [length (function_heap p)],
        function_map := (function_map p)(key \<mapsto> length (function_heap p))\<rparr>)"
  by (simp add: create_function_def Let_def)

lemma create_function_registers:
  "function_map (snd (create_function key p)) key = Some (fst (create_function key p))"
  by (cases "function_map p key") (simp_all add: create_function_hit create_function_miss)

lemma create_function_keeps:
  "function_map p key' = Some f \<Longrightarrow> function_map (snd (create_function key p)) key' = Some f"
  by (cases "function_map p key") (auto simp: create_function_hit create_function_miss)

lemma create_functions_keeps:
  "function_map p key' = Some f \<Longrightarrow> function_map (snd (create_functions keys p)) key' = Some f"
proof (induction keys arbitrary: p)
  case Nil
  then show ?case by simp
next
  case (Cons key keys)
  from Cons.prems have "function_map (snd (create_function key p)) key' = Some f"
    by (rule create_function_keeps)
  from Cons.IH [OF this] show ?case
    by (simp add: split_def Let_def)
qed

lemma function_map_ok_init: "function_map_ok (Program_init main cs)"
  by (simp add: function_map_ok_def Program_init_def)

lemma function_map_ok_create:
  assumes "function_map_ok p"
  shows "function_map_ok (snd (create_function key p))"
proof (cases "function_map p key")
  case (Some f)
  with assms show ?thesis by (simp add: create_function_hit)
next
  case None
  from assms have d: "distinct (function_heap p)"
    and m: "\<And>k f. function_map p k = Some f \<longleftrightarrow>
              (f < length (function_heap p) \<and> function_heap p ! f = Function k)"
    by (simp_all add: function_map_ok_def)
  have fresh: "Function key \<notin> set (function_heap p)"
  proof
    assume "Function key \<in> set (function_heap p)"
    then obtain f where "f < length (function_heap p)" "function_heap p ! f = Function key"
      by (auto simp: in_set_conv_nth)
    with m [of key f] None show False by simp
  qed
  have fresh': "function_heap p ! f \<noteq> Function key" if "f < length (function_heap p)" for f
    using fresh nth_mem [OF that] by auto
  show ?thesis
    unfolding function_map_ok_def create_function_miss [OF None] using d fresh fresh' m
    by (auto simp: nth_append less_Suc_eq)
qed

lemma create_functions_ok:
  "function_map_ok p \<Longrightarrow>
   function_map_ok (snd (create_functions keys p)) \<and>
   length (fst (create_functions keys p)) = length keys \<and>
   (\<forall>i<length keys.
      function_map (snd (create_functions keys p)) (keys ! i) =
        Some (fst (create_functions keys p) ! i)) \<and>
   set (function_heap (snd (create_functions keys p))) =
     set (function_heap p) \<union> Function ` set keys"
proof (induction keys arbitrary: p)
  case Nil
  then show ?case by simp
next
  case (Cons key keys)
  let ?p1 = "snd (create_function key p)"
  let ?f = "fst (create_function key p)"
  have ok1: "function_map_ok ?p1"
    using Cons.prems by (rule function_map_ok_create)
  note IH = Cons.IH [OF ok1]
  have reg: "function_map (snd (create_functions keys ?p1)) key = Some ?f"
    by (rule create_functions_keeps) (rule create_function_registers)
  have heap1: "set (function_heap ?p1) = insert (Function key) (set (function_heap p))"
  proof (cases "function_map p key")
    case None
    then show ?thesis by (simp add: create_function_miss)
  next
    case (Some f)
    with Cons.prems have "Function key \<in> set (function_heap p)"
      by (auto simp: function_map_ok_def in_set_conv_nth)
    with Some show ?thesis by (auto simp: create_function_hit)
  qed
  have unf: "create_functions (key # keys) p =
      (?f # fst (create_functions keys ?p1), snd (create_functions keys ?p1))"
    by (simp add: split_def Let_def)
  show ?case
    unfolding unf using IH reg heap1
    by (auto simp: nth_Cons split: nat.splits)
qed

lemma create_function_again:
  "create_function key (snd (create_functions keys (snd (create_function key p)))) =
     (fst (create_function key p), snd (create_functions keys (snd (create_function key p))))"
  by (rule create_function_hit, rule create_functions_keeps, rule create_function_registers)

lemma create_functions_from_init:
  assumes r: "r = create_functions keys (Program_init main cs :: ('cfg, 'dt, 'k, 'fk, 'sn) Program)"
  shows "length (fst r) = length keys"
    and "i < length keys \<Longrightarrow> fst r ! i < length (function_heap (snd r))"
    and "i < length keys \<Longrightarrow> function_heap (snd r) ! (fst r ! i) = Function (keys ! i)"
    and "i < length keys \<Longrightarrow> j < length keys \<Longrightarrow> fst r ! i = fst r ! j \<longleftrightarrow> keys ! i = keys ! j"
    and "length (function_heap (snd r)) = card (set keys)"
proof -
  note ok = create_functions_ok [OF function_map_ok_init]
  have inv: "function_map_ok (snd r)"
    and len: "length (fst r) = length keys"
    and heap: "set (function_heap (snd r)) = Function ` set keys"
    unfolding r by (simp_all add: ok) (simp add: Program_init_def)
  have reg: "function_map (snd r) (keys ! i) = Some (fst r ! i)" if "i < length keys" for i
    unfolding r using that by (simp add: ok)
  from inv have d: "distinct (function_heap (snd r))"
    and m: "\<And>k f. function_map (snd r) k = Some f \<longleftrightarrow>
              (f < length (function_heap (snd r)) \<and> function_heap (snd r) ! f = Function k)"
    by (simp_all add: function_map_ok_def)
  show "length (fst r) = length keys" by (rule len)
  show a: "fst r ! i < length (function_heap (snd r))" if "i < length keys" for i
    using reg [OF that] m by simp
  show b: "function_heap (snd r) ! (fst r ! i) = Function (keys ! i)" if "i < length keys" for i
    using reg [OF that] m by simp
  show "fst r ! i = fst r ! j \<longleftrightarrow> keys ! i = keys ! j" if "i < length keys" "j < length keys"
    using reg [OF that(1)] reg [OF that(2)] b [OF that(1)] b [OF that(2)] by auto
  have "length (function_heap (snd r)) = card (set (function_heap (snd r)))"
    using d by (simp add: distinct_card)
  also have "\<dots> = card (Function ` set keys)"
    using heap by simp
  also have "\<dots> = card (set keys)"
    by (rule card_image) (simp add: inj_on_def)
  finally show "length (function_heap (snd r)) = card (set keys)" .
qed

text \<open>
  C5: once \<^verbatim>\<open>create_function(key)\<close> has been called, every later call with the same
  key, after whatever other calls of \<^verbatim>\<open>create_function\<close>, returns the same
  \<^verbatim>\<open>Function\<close> instance and constructs nothing (the state stays as it is). In a run of
  calls on a fresh program two calls return the same instance exactly when their keys
  are equal, each returned instance is the function built from the call's key, and the
  number of \<^verbatim>\<open>Function\<close> instances is the number of distinct keys.
\<close>

theorem create_function_one_instance_per_key:
  "(case create_function key (p :: ('cfg, 'dt, 'k, 'fk, 'sn) Program) of
      (f, p1) \<Rightarrow>
        (case create_functions others p1 of
           (fs, p2) \<Rightarrow>
             create_function key p2 = (f, p2) \<and>
             (function_map p key \<noteq> None \<longrightarrow> p1 = p))) \<and>
   (case create_functions keys (Program_init main cs :: ('cfg, 'dt, 'k, 'fk, 'sn) Program) of
      (fs, q) \<Rightarrow>
        length fs = length keys \<and>
        (\<forall>i<length keys. \<forall>j<length keys. fs ! i = fs ! j \<longleftrightarrow> keys ! i = keys ! j) \<and>
        (\<forall>i<length keys.
           fs ! i < length (function_heap q) \<and>
           function_heap q ! (fs ! i) = Function (keys ! i)) \<and>
        length (function_heap q) = card (set keys))"
proof (rule conjI)
  show "case create_function key p of
      (f, p1) \<Rightarrow>
        (case create_functions others p1 of
           (fs, p2) \<Rightarrow>
             create_function key p2 = (f, p2) \<and>
             (function_map p key \<noteq> None \<longrightarrow> p1 = p))"
    using create_function_again [of key others p]
    by (auto simp: split_def create_function_hit)
next
  show "case create_functions keys (Program_init main cs :: ('cfg, 'dt, 'k, 'fk, 'sn) Program) of
      (fs, q) \<Rightarrow>
        length fs = length keys \<and>
        (\<forall>i<length keys. \<forall>j<length keys. fs ! i = fs ! j \<longleftrightarrow> keys ! i = keys ! j) \<and>
        (\<forall>i<length keys.
           fs ! i < length (function_heap q) \<and>
           function_heap q ! (fs ! i) = Function (keys ! i)) \<and>
        length (function_heap q) = card (set keys)"
    unfolding split_def
    by (intro conjI allI impI create_functions_from_init [OF refl])
qed

theorem create_function_one_instance_per_key_witness:
  "create_functions [''f'', ''g'', ''f'']
     (Program_init 0 Map.empty :: (unit, unit, unit, string, unit) Program) =
     ([0, 1, 0],
      (Program_init 0 Map.empty :: (unit, unit, unit, string, unit) Program)
        \<lparr>function_heap := [Function ''f'', Function ''g''], functions_vec := [0, 1],
         function_map := [''f'' \<mapsto> 0, ''g'' \<mapsto> 1]\<rparr>)"
  using create_function_one_instance_per_key
    [where keys = "[''f'', ''g'', ''f'']" and main = 0 and cs = Map.empty
       and p = "Program_init 0 Map.empty :: (unit, unit, unit, string, unit) Program"
       and key = "''f''" and others = "[''g'']"]
  by (simp add: create_function_def Program_init_def Let_def)

subsection \<open>JIT evaluator cache\<close>

lemma evaluator_id_thread: "thread_id (evaluator_id t req) = t"
  by (cases req) (simp add: evaluator_id_def)

lemma evaluator_id_other_thread: "t' \<noteq> t \<Longrightarrow> evaluator_id t' req \<noteq> evaluator_id t req"
  using evaluator_id_thread [of t' req] evaluator_id_thread [of t req] by auto

lemma get_or_compile_hit:
  "jit_evaluator_cache p (evaluator_id t req) = Some ker \<Longrightarrow>
   get_or_compile ce t req p = (ker, p)"
  by (simp add: get_or_compile_def)

lemma get_or_compile_miss:
  "jit_evaluator_cache p (evaluator_id t req) = None \<Longrightarrow>
   get_or_compile ce t req p =
     (length (kernel_heap p),
      p\<lparr>kernel_heap := kernel_heap p @ [ce (evaluator_id t req) (jit_evaluator_id p)],
        jit_evaluator_id := jit_evaluator_id p + 1,
        jit_evaluator_cache :=
          (jit_evaluator_cache p)(evaluator_id t req \<mapsto> length (kernel_heap p))\<rparr>)"
  by (simp add: get_or_compile_def Let_def)

lemma get_or_compile_registers:
  "jit_evaluator_cache (snd (get_or_compile ce t req p)) (evaluator_id t req) =
     Some (fst (get_or_compile ce t req p))"
  by (cases "jit_evaluator_cache p (evaluator_id t req)")
     (simp_all add: get_or_compile_hit get_or_compile_miss)

lemma get_or_compile_keeps:
  "jit_evaluator_cache p i = Some ker \<Longrightarrow>
   jit_evaluator_cache (snd (get_or_compile ce t req p)) i = Some ker"
  by (cases "jit_evaluator_cache p (evaluator_id t req)")
     (auto simp: get_or_compile_hit get_or_compile_miss)

lemma get_or_compile_all_keeps:
  "jit_evaluator_cache p i = Some ker \<Longrightarrow>
   jit_evaluator_cache (get_or_compile_all ce rs p) i = Some ker"
proof (induction rs arbitrary: p)
  case Nil
  then show ?case by simp
next
  case (Cons r rs)
  obtain t req where r: "r = (t, req)"
    by (cases r)
  from Cons.prems have "jit_evaluator_cache (snd (get_or_compile ce t req p)) i = Some ker"
    by (rule get_or_compile_keeps)
  from Cons.IH [OF this] r show ?case
    by simp
qed

lemma jit_evaluator_cache_ok_init: "jit_evaluator_cache_ok (Program_init main cs)"
  by (simp add: jit_evaluator_cache_ok_def Program_init_def)

lemma jit_evaluator_cache_ok_get_or_compile:
  assumes "jit_evaluator_cache_ok p"
  shows "jit_evaluator_cache_ok (snd (get_or_compile ce t req p))"
proof (cases "jit_evaluator_cache p (evaluator_id t req)")
  case (Some ker)
  with assms show ?thesis by (simp add: get_or_compile_hit)
next
  case None
  from assms have b: "\<And>i ker. jit_evaluator_cache p i = Some ker \<Longrightarrow> ker < length (kernel_heap p)"
    and inj: "\<And>i j ker. jit_evaluator_cache p i = Some ker \<Longrightarrow> jit_evaluator_cache p j = Some ker
                \<Longrightarrow> i = j"
    unfolding jit_evaluator_cache_ok_def by blast+
  show ?thesis
    unfolding jit_evaluator_cache_ok_def get_or_compile_miss [OF None]
    using b inj by (auto simp: less_Suc_eq dest: b)
qed

lemma jit_evaluator_cache_ok_all:
  "jit_evaluator_cache_ok p \<Longrightarrow> jit_evaluator_cache_ok (get_or_compile_all ce rs p)"
proof (induction rs arbitrary: p)
  case Nil
  then show ?case by simp
next
  case (Cons r rs)
  obtain t req where r: "r = (t, req)"
    by (cases r)
  from Cons.prems have "jit_evaluator_cache_ok (snd (get_or_compile ce t req p))"
    by (rule jit_evaluator_cache_ok_get_or_compile)
  from Cons.IH [OF this] r show ?case
    by simp
qed

lemma jit_evaluator_cache_ok_kernel:
  "jit_evaluator_cache_ok p \<Longrightarrow> jit_evaluator_cache_ok (snd (kernel ctor body name mode p))"
  by (auto simp: jit_evaluator_cache_ok_def kernel_def Let_def less_Suc_eq)

lemma get_or_compile_grows: 
  "length (kernel_heap (snd (get_or_compile ce t req p))) =
     (if jit_evaluator_cache p (evaluator_id t req) = None then Suc (length (kernel_heap p))
      else length (kernel_heap p))"
  by (cases "jit_evaluator_cache p (evaluator_id t req)")
     (simp_all add: get_or_compile_hit get_or_compile_miss)

text \<open>
  C2: a call of \<^verbatim>\<open>get_or_compile\<close> compiles at most one kernel. A second call with the
  same parameters by the same thread, after whatever requests of any threads came in
  between, returns the identical \<^verbatim>\<open>Kernel\<close> object and leaves the state as it is, so
  nothing is compiled again. In a well-formed cache (every cached address is an object,
  no two ids share one: true initially and kept by \<^verbatim>\<open>get_or_compile\<close> and
  \<^verbatim>\<open>kernel\<close>) a call with the same parameters by a different thread returns a
  different object, and when that thread has no entry yet it compiles a second kernel.
\<close>

theorem get_or_compile_same_thread_same_kernel:
  "(case get_or_compile ce t req (p :: ('cfg, 'dt, 'k, 'fk, 'sn) Program) of
      (k1, p1) \<Rightarrow>
        length (kernel_heap p1) \<le> Suc (length (kernel_heap p)) \<and>
        get_or_compile ce t req (get_or_compile_all ce rs p1)
          = (k1, get_or_compile_all ce rs p1) \<and>
        (jit_evaluator_cache_ok p \<and> t' \<noteq> t \<longrightarrow>
           (case get_or_compile ce t' req (get_or_compile_all ce rs p1) of
              (k2, p2) \<Rightarrow>
                k2 \<noteq> k1 \<and> k1 < length (kernel_heap p2) \<and> k2 < length (kernel_heap p2) \<and>
                (jit_evaluator_cache (get_or_compile_all ce rs p1) (evaluator_id t' req) = None
                   \<longrightarrow> kernel_heap p2 =
                         kernel_heap (get_or_compile_all ce rs p1) @
                         [ce (evaluator_id t' req)
                            (jit_evaluator_id (get_or_compile_all ce rs p1))])))) \<and>
   jit_evaluator_cache_ok (Program_init main cs :: ('cfg, 'dt, 'k, 'fk, 'sn) Program) \<and>
   (jit_evaluator_cache_ok p \<longrightarrow> jit_evaluator_cache_ok (snd (get_or_compile ce t req p))) \<and>
   (jit_evaluator_cache_ok p \<longrightarrow> jit_evaluator_cache_ok (snd (kernel ctor body name mode p)))"
proof -
  obtain k1 p1 where c1: "get_or_compile ce t req p = (k1, p1)"
    by (cases "get_or_compile ce t req p")
  let ?q = "get_or_compile_all ce rs p1"
  have reg1: "jit_evaluator_cache p1 (evaluator_id t req) = Some k1"
    using get_or_compile_registers [of ce t req p] c1 by simp
  then have regq: "jit_evaluator_cache ?q (evaluator_id t req) = Some k1"
    by (rule get_or_compile_all_keeps)
  have a: "length (kernel_heap p1) \<le> Suc (length (kernel_heap p))"
    using get_or_compile_grows [of ce t req p] c1 by (simp split: if_splits)
  have b: "get_or_compile ce t req ?q = (k1, ?q)"
    using regq by (rule get_or_compile_hit)
  have c: "case get_or_compile ce t' req ?q of
              (k2, p2) \<Rightarrow>
                k2 \<noteq> k1 \<and> k1 < length (kernel_heap p2) \<and> k2 < length (kernel_heap p2) \<and>
                (jit_evaluator_cache ?q (evaluator_id t' req) = None
                   \<longrightarrow> kernel_heap p2 =
                         kernel_heap ?q @ [ce (evaluator_id t' req) (jit_evaluator_id ?q)])"
    if ok: "jit_evaluator_cache_ok p" and t': "t' \<noteq> t"
  proof -
    obtain k2 p2 where c2: "get_or_compile ce t' req ?q = (k2, p2)"
      by (cases "get_or_compile ce t' req ?q")
    have "jit_evaluator_cache_ok p1"
      using jit_evaluator_cache_ok_get_or_compile [OF ok, of ce t req] c1 by simp
    then have "jit_evaluator_cache_ok ?q"
      by (rule jit_evaluator_cache_ok_all)
    then have ok2: "jit_evaluator_cache_ok p2"
      using jit_evaluator_cache_ok_get_or_compile [of ?q ce t' req] c2 by simp
    have r1: "jit_evaluator_cache p2 (evaluator_id t req) = Some k1"
      using get_or_compile_keeps [OF regq, of ce t' req] c2 by simp
    have r2: "jit_evaluator_cache p2 (evaluator_id t' req) = Some k2"
      using get_or_compile_registers [of ce t' req ?q] c2 by simp
    from ok2 r1 r2 evaluator_id_other_thread [OF t', of req]
    have "k2 \<noteq> k1" "k1 < length (kernel_heap p2)" "k2 < length (kernel_heap p2)"
      unfolding jit_evaluator_cache_ok_def by blast+
    moreover have "jit_evaluator_cache ?q (evaluator_id t' req) = None
                   \<longrightarrow> kernel_heap p2 =
                         kernel_heap ?q @ [ce (evaluator_id t' req) (jit_evaluator_id ?q)]"
      using c2 by (auto simp: get_or_compile_miss)
    ultimately show ?thesis
      using c2 by simp
  qed
  have d: "jit_evaluator_cache_ok p \<longrightarrow> jit_evaluator_cache_ok p1"
    using jit_evaluator_cache_ok_get_or_compile [of p ce t req] c1 by simp
  show ?thesis
    using c1 a b c d
    by (simp add: jit_evaluator_cache_ok_init jit_evaluator_cache_ok_kernel)
qed

theorem get_or_compile_same_thread_same_kernel_witness:
  "jit_evaluator_cache_ok (Program_init 0 Map.empty :: (unit, nat, string, unit, unit) Program) \<and>
   (1::nat) \<noteq> 2 \<and>
   fst (get_or_compile (\<lambda>i n. ''evaluator'') 1 (3, True, 5, 5, 5, ''tb'')
          (Program_init 0 Map.empty :: (unit, nat, string, unit, unit) Program)) = 0 \<and>
   fst (get_or_compile (\<lambda>i n. ''evaluator'') 1 (3, True, 5, 5, 5, ''tb'')
          (get_or_compile_all (\<lambda>i n. ''evaluator'') [(2, (3, True, 5, 5, 5, ''tb''))]
             (snd (get_or_compile (\<lambda>i n. ''evaluator'') 1 (3, True, 5, 5, 5, ''tb'')
                (Program_init 0 Map.empty :: (unit, nat, string, unit, unit) Program))))) = 0 \<and>
   fst (get_or_compile (\<lambda>i n. ''evaluator'') 2 (3, True, 5, 5, 5, ''tb'')
          (get_or_compile_all (\<lambda>i n. ''evaluator'') [(2, (3, True, 5, 5, 5, ''tb''))]
             (snd (get_or_compile (\<lambda>i n. ''evaluator'') 1 (3, True, 5, 5, 5, ''tb'')
                (Program_init 0 Map.empty :: (unit, nat, string, unit, unit) Program))))) = 1"
  using get_or_compile_same_thread_same_kernel
    [where p = "Program_init 0 Map.empty :: (unit, nat, string, unit, unit) Program"
       and ce = "\<lambda>i n. ''evaluator''" and t = 1 and t' = 2
       and req = "(3, True, 5, 5, 5, ''tb'')"
       and rs = "[(2, (3, True, 5, 5, 5, ''tb''))]" and main = 0 and cs = Map.empty
       and ctor = "\<lambda>p b n m. ''kernel''" and body = "()" and name = "''k''" and mode = "()"]
  by (simp add: get_or_compile_def evaluator_id_def Program_init_def Let_def)

end
